theory Spec2Isabelle
  imports Complex_Main "HOL-Library.Word"
begin

section \<open>Aero Sentry: the sketch \<open>AeroSentry.ino\<close> as HOL functions\<close>

text \<open>
  The sketch keeps all of its state in global variables and runs one cooperative
  \<open>loop()\<close>. The embedding below follows it function by function.

  Numeric conventions.
  \<^item> The value of a C++ \<open>float\<close> or \<open>double\<close> is a \<^typ>\<open>real\<close>. Every arithmetic
    operation on them rounds its exact result to the format in which C++ evaluates it:
    \<open>f32\<close> rounds to IEEE binary32 and \<open>f64\<close> to binary64, to nearest with ties to
    even, subnormal numbers included. Comparisons are exact. Overflow to infinity and
    NaN are outside the model.
  \<^item> \<open>int\<close> and \<open>long\<close> are \<^typ>\<open>int\<close>; every value the sketch computes in them
    stays far inside 32 bits.
  \<^item> \<open>unsigned long\<close> (the \<open>millis()\<close> clock and the three timers) is a
    \<^typ>\<open>32 word\<close>: subtraction wraps and comparison is unsigned, as on the ESP32.
  \<^item> Calls that only paint the TFT display (\<open>tft.*\<close>, \<open>updateValues\<close>,
    \<open>updateClock\<close>, \<open>drawStaticInterface\<close>) change no variable of the sketch and are
    left out; what \<open>drawGraph\<close> would draw is kept as its result.
\<close>

subsection \<open>C and Arduino primitives\<close>

text \<open>Conversion of a \<open>float\<close> to an integer type: the fraction is discarded.\<close>

definition c_trunc :: "real \<Rightarrow> int" where
  "c_trunc x = (if 0 \<le> x then \<lfloor>x\<rfloor> else \<lceil>x\<rceil>)"

text \<open>Integer division of C: the quotient is truncated towards zero.\<close>

definition c_div :: "int \<Rightarrow> int \<Rightarrow> int" where
  "c_div a b = sgn a * sgn b * (\<bar>a\<bar> div \<bar>b\<bar>)"

text \<open>
  Modelled from the spec: \<open>long map(long x, long in_min, long in_max, long out_min,
  long out_max)\<close> belongs to the Arduino core, which is not part of the repository. The
  specification gives its use for the indicator as \<open>floor(percent * (K + 1) / 100)\<close>;
  this is the core's reference formula
  \<open>(x - in_min) * (out_max - out_min) / (in_max - in_min) + out_min\<close> in integer
  arithmetic. The formula divides by \<open>in_max - in_min\<close>; where that is zero the call
  has no result here.
\<close>

definition map_long :: "int \<Rightarrow> int \<Rightarrow> int \<Rightarrow> int \<Rightarrow> int \<Rightarrow> int option" where
  "map_long x in_min in_max out_min out_max =
     (if in_max - in_min = 0 then None
      else Some (c_div ((x - in_min) * (out_max - out_min)) (in_max - in_min) + out_min))"

text \<open>The Arduino macro \<open>constrain(amt, low, high)\<close>.\<close>

definition constrain :: "int \<Rightarrow> int \<Rightarrow> int \<Rightarrow> int" where
  "constrain amt low high = (if amt < low then low else if amt > high then high else amt)"

subsection \<open>Floating-point rounding\<close>

text \<open>
  \<open>rne\<close> rounds to the nearest integer, ties to even. \<open>expo nd nu x\<close> is the binary
  exponent of a positive \<open>x\<close>, kept between \<open>-nd\<close>, the exponent of the subnormal
  numbers, and \<open>nu\<close>, the exponent of the largest numbers. \<open>fl p nd nu\<close> rounds to
  \<open>p\<close> significant bits at that exponent; a value beyond the largest finite number is
  rounded on the grid of the top exponent instead of becoming infinite.
\<close>

definition rne :: "real \<Rightarrow> int" where
  "rne x = (let f = \<lfloor>x\<rfloor>; d = x - of_int f
            in if d < 1 / 2 then f else if 1 / 2 < d then f + 1
               else if even f then f else f + 1)"

definition pow2 :: "int \<Rightarrow> real" where
  "pow2 k = (if 0 \<le> k then 2 ^ nat k else 1 / 2 ^ nat (- k))"

fun expo_down :: "nat \<Rightarrow> real \<Rightarrow> int" where
  "expo_down 0 x = 0"
| "expo_down (Suc n) x = (if x < 1 then expo_down n (2 * x) - 1 else 0)"

fun expo_up :: "nat \<Rightarrow> real \<Rightarrow> int" where
  "expo_up 0 x = 0"
| "expo_up (Suc n) x = (if 2 \<le> x then expo_up n (x / 2) + 1 else 0)"

definition expo :: "nat \<Rightarrow> nat \<Rightarrow> real \<Rightarrow> int" where
  "expo nd nu x = (if 1 \<le> x then expo_up nu x else expo_down nd x)"

definition round_pos :: "nat \<Rightarrow> nat \<Rightarrow> nat \<Rightarrow> real \<Rightarrow> real" where
  "round_pos p nd nu x =
     (let u = pow2 (expo nd nu x - int p + 1) in of_int (rne (x / u)) * u)"

definition fl :: "nat \<Rightarrow> nat \<Rightarrow> nat \<Rightarrow> real \<Rightarrow> real" where
  "fl p nd nu x =
     (if x = 0 then 0 else if x < 0 then - round_pos p nd nu (- x) else round_pos p nd nu x)"

definition f32 :: "real \<Rightarrow> real" where
  "f32 = fl 24 126 127"

definition f64 :: "real \<Rightarrow> real" where
  "f64 = fl 53 1022 1023"

subsection \<open>Constants and global variables\<close>

definition GRAPH_INTERVAL :: "32 word" where
  "GRAPH_INTERVAL = 300000"

definition numLeds :: nat where
  "numLeds = 8"

definition MAX_HISTORY :: nat where
  "MAX_HISTORY = 40"

record state =
  tempHistory :: "real list"
  pressureBaseline :: real
  weatherStatus :: string
  lastUpdate :: "32 word"
  lastGraphUpdate :: "32 word"
  lastClockUpdate :: "32 word"
  lastTemp :: real
  lastHum :: real
  lastPres :: real
  lastGas :: real
  ledLevels :: "bool list"
  builtinLed :: bool

text \<open>
  The globals as their initialisers and \<open>setup()\<close> leave them: the history is zeroed,
  the output pins are low.
\<close>

definition initial_state :: state where
  "initial_state =
     \<lparr>tempHistory = replicate MAX_HISTORY 0,
      pressureBaseline = 0,
      weatherStatus = ''Analysis...'',
      lastUpdate = 0,
      lastGraphUpdate = 0,
      lastClockUpdate = 0,
      lastTemp = 0, lastHum = 0, lastPres = 0, lastGas = 0,
      ledLevels = replicate numLeds False,
      builtinLed = False\<rparr>"

subsection \<open>Utilities: \<open>mapGasToPercent\<close>, \<open>updateLedBar\<close>, \<open>runHeartbeat\<close>\<close>

definition mapGasToPercent :: "real \<Rightarrow> int" where
  "mapGasToPercent gas_kohm =
     (let clean = 150; bad = 5;
          gas1 = (if gas_kohm > clean then clean else gas_kohm);
          gas2 = (if gas1 < bad then bad else gas1)
      in c_trunc (f64 (f64 (f32 (clean - gas2) * 100) / f32 (clean - bad))))"

text \<open>
  \<open>updateLedBar\<close> writes every one of the eight pins, so its effect is the list of
  levels it leaves, pin \<open>ledPins[i]\<close> at position \<open>i\<close>. The second argument is what
  \<open>millis()\<close> returns inside the function.
\<close>

definition updateLedBar :: "int \<Rightarrow> 32 word \<Rightarrow> bool list option" where
  "updateLedBar percent ms =
     (let p1 = (if percent < 0 then 0 else percent);
          p2 = (if p1 > 100 then 100 else p1)
      in case map_long p2 0 100 0 (int numLeds + 1) of
           None \<Rightarrow> None
         | Some ledsOn \<Rightarrow>
             if p2 > 90 \<and> (ms div 200) mod 2 = 0
             then Some (map (\<lambda>i. False) [0..<numLeds])
             else Some (map (\<lambda>i. int i < ledsOn) [0..<numLeds]))"

definition runHeartbeat :: "32 word \<Rightarrow> state \<Rightarrow> state" where
  "runHeartbeat ms s = s\<lparr>builtinLed := (ms mod 2000 < 100)\<rparr>"

subsection \<open>Graph logic: \<open>addGraphPoint\<close>, \<open>drawGraph\<close>\<close>

text \<open>The shifting loop assigns in place, index by index.\<close>

definition addGraphPoint :: "real \<Rightarrow> state \<Rightarrow> state" where
  "addGraphPoint val s =
     (let h = fold (\<lambda>i h. h[i := h ! (i + 1)]) [0..<MAX_HISTORY - 1] (tempHistory s)
      in s\<lparr>tempHistory := h[MAX_HISTORY - 1 := val]\<rparr>)"

text \<open>
  \<open>drawGraph\<close> in three parts: the scan for \<open>minVal\<close> and \<open>maxVal\<close>, the widening
  or padding of the range, and the line segments \<open>(x1, y1, x2, y2)\<close> that are drawn.
\<close>

definition drawGraph_scan :: "real \<Rightarrow> real \<times> real \<Rightarrow> real \<times> real" where
  "drawGraph_scan v mm =
     (case mm of (minVal, maxVal) \<Rightarrow>
        if v = 0 then (minVal, maxVal)
        else (let minVal' = (if v < minVal then v else minVal);
                  maxVal' = (if v > maxVal then v else maxVal)
              in (minVal', maxVal')))"

definition drawGraph_minmax :: "real list \<Rightarrow> real \<times> real" where
  "drawGraph_minmax h = fold (\<lambda>i. drawGraph_scan (h ! i)) [0..<MAX_HISTORY] (100, - 100)"

definition drawGraph_range :: "real list \<Rightarrow> real \<times> real" where
  "drawGraph_range h =
     (case drawGraph_minmax h of (minVal, maxVal) \<Rightarrow>
        if f32 (maxVal - minVal) < 1
        then (let mid = f32 (f32 (maxVal + minVal) / 2) in (f32 (mid - 1), f32 (mid + 1)))
        else (f32 (f64 (minVal - f64 0.2)), f32 (f64 (maxVal + f64 0.2))))"

type_synonym line = "int \<times> int \<times> int \<times> int"

fun drawGraph_lines :: "real \<Rightarrow> real \<Rightarrow> real list \<Rightarrow> nat list \<Rightarrow> line list option" where
  "drawGraph_lines minVal maxVal h [] = Some []"
| "drawGraph_lines minVal maxVal h (i # is) =
     (if h ! i = 0 \<or> h ! (i + 1) = 0 then drawGraph_lines minVal maxVal h is
      else
        case map_long (c_trunc (f32 (h ! i * 10))) (c_trunc (f32 (minVal * 10)))
               (c_trunc (f32 (maxVal * 10))) 168 (168 - 56) of
          None \<Rightarrow> None
        | Some y1 \<Rightarrow>
           (case map_long (c_trunc (f32 (h ! (i + 1) * 10))) (c_trunc (f32 (minVal * 10)))
                   (c_trunc (f32 (maxVal * 10))) 168 (168 - 56) of
              None \<Rightarrow> None
            | Some y2 \<Rightarrow>
               (case drawGraph_lines minVal maxVal h is of
                  None \<Rightarrow> None
                | Some ls \<Rightarrow>
                    Some ((11 + int i * (218 div int MAX_HISTORY),
                           constrain y1 (168 - 56) 168,
                           11 + (int i + 1) * (218 div int MAX_HISTORY),
                           constrain y2 (168 - 56) 168) # ls))))"

definition drawGraph :: "real list \<Rightarrow> line list option" where
  "drawGraph h =
     (case drawGraph_range h of (minVal, maxVal) \<Rightarrow>
        drawGraph_lines minVal maxVal h [0..<MAX_HISTORY - 1])"

subsection \<open>Forecast: \<open>updateForecast\<close>\<close>

definition updateForecast :: "real \<Rightarrow> state \<Rightarrow> state" where
  "updateForecast p s =
     (let s1 = (if pressureBaseline s = 0 then s\<lparr>pressureBaseline := p\<rparr> else s);
          diff = f32 (p - pressureBaseline s1);
          s2 = s1\<lparr>pressureBaseline :=
                   f32 (f64 (f64 (pressureBaseline s1 * f64 0.95) + f64 (p * f64 0.05)))\<rparr>
      in if diff > f64 0.2 then s2\<lparr>weatherStatus := ''Growing (Sun)''\<rparr>
         else if diff < - f64 0.2 then s2\<lparr>weatherStatus := ''Falling (Rain)''\<rparr>
         else s2\<lparr>weatherStatus := ''Stable''\<rparr>)"

subsection \<open>Web page: \<open>handleRoot\<close>\<close>

text \<open>
  The page is a concatenation of literals and of numbers converted by the Arduino
  \<open>String\<close> constructors, which are library code: \<open>FloatStr x d\<close> stands for
  \<open>String(x, d)\<close> (the float \<open>x\<close> printed with \<open>d\<close> decimals) and \<open>IntStr n\<close> for
  \<open>String(n)\<close>.
\<close>

datatype piece = Lit string | FloatStr real nat | IntStr int

definition handleRoot :: "state \<Rightarrow> piece list" where
  "handleRoot s =
     (let qColor = (if mapGasToPercent (lastGas s) > 60 then ''#ff3d00'' else ''#76ff03'')
      in [Lit ''<!DOCTYPE html><html><head><meta charset='utf-8'>'',
          Lit ''<meta name='viewport' content='width=device-width, initial-scale=1'>'',
          Lit ''<meta http-equiv='refresh' content='10'>'',
          Lit ''<title>AeroSentry</title>'',
          Lit ''<style>body{font-family:sans-serif; text-align:center; background:#121212; color:#fff; margin:0; padding:20px;}'',
          Lit ''.box{background:#1e1e1e; margin:10px auto; padding:20px; max-width:300px; border-radius:12px; border:1px solid #333;}'',
          Lit ''h1{color:#ff9800; margin-bottom:5px;} h2{font-size:3rem; margin:10px 0; color:#00e5ff;}'',
          Lit ''.lbl{color:#888; font-size:0.9rem;} .stat{font-weight:bold; color:#76ff03;}</style></head>'',
          Lit ''<body><h1>AERO SENTRY</h1><p class='lbl'>Status Live</p>'',
          Lit ''<div class='box'><div class='lbl'>TEMPERATURE</div><h2>'',
          FloatStr (lastTemp s) 1, Lit ''&deg;C</h2></div>'',
          Lit ''<div class='box'><div class='lbl'>HUMIDITY</div><h2>'',
          FloatStr (lastHum s) 0, Lit ''%</h2></div>'',
          Lit ''<div class='box'><div class='lbl'>PRESSURE</div><h2>'',
          FloatStr (lastPres s) 0, Lit '' hPa</h2><p>'', Lit (weatherStatus s),
          Lit ''</p></div>'',
          Lit ''<div class='box' style='border-color:'', Lit qColor,
          Lit '''><div class='lbl'>INDOOR AIR QUALITY (IAQ)</div>'',
          Lit ''<h2 style='color:'', Lit qColor, Lit '''>'',
          IntStr (mapGasToPercent (lastGas s)), Lit ''%</h2></div>'',
          Lit ''</body></html>''])"

subsection \<open>The control loop\<close>

text \<open>
  One pass of \<open>loop()\<close> reads the outside world at fixed places; \<open>poll\<close> holds what
  each read returns in that pass: whether a client asks for the page, the value of every
  \<open>millis()\<close> call in the order of the source, and the outcome of
  \<open>bme.performReading()\<close> (\<open>None\<close> when it fails).
\<close>

record sample =
  temperature :: real
  humidity :: real
  pressure :: real
  gas_resistance :: real

record poll =
  request :: bool
  ms_clock_test :: "32 word"
  ms_clock_set :: "32 word"
  ms_update_test :: "32 word"
  ms_update_set :: "32 word"
  reading :: "sample option"
  ms_led :: "32 word"
  ms_graph_test :: "32 word"
  ms_graph_set :: "32 word"
  ms_heartbeat :: "32 word"

text \<open>
  What a pass does to the outside is a list of events: a page sent, a graph drawn, and,
  for each of the three timer-guarded blocks, a mark that the block ran.
\<close>

datatype task = ClockTask | SampleTask | GraphTask

datatype event = PageSent "piece list" | GraphDrawn "line list" | TaskRun task

definition handleClient :: "poll \<Rightarrow> state \<Rightarrow> event list" where
  "handleClient inp s = (if request inp then [PageSent (handleRoot s)] else [])"

definition loop_clock :: "poll \<Rightarrow> state \<Rightarrow> state \<times> event list" where
  "loop_clock inp s =
     (if ms_clock_test inp - lastClockUpdate s > 1000
      then (s\<lparr>lastClockUpdate := ms_clock_set inp\<rparr>, [TaskRun ClockTask])
      else (s, []))"

definition loop_sample :: "poll \<Rightarrow> state \<Rightarrow> (state \<times> event list) option" where
  "loop_sample inp s =
     (if ms_update_test inp - lastUpdate s > 3000
      then
        (let s1 = s\<lparr>lastUpdate := ms_update_set inp\<rparr>
         in case reading inp of
              None \<Rightarrow> Some (s1, [TaskRun SampleTask])
            | Some r \<Rightarrow>
               (let s2 = s1\<lparr>lastTemp := temperature r,
                             lastHum := humidity r,
                             lastPres := f32 (f64 (pressure r / 100)),
                             lastGas := f32 (f64 (gas_resistance r / 1000))\<rparr>;
                    iaq = mapGasToPercent (lastGas s2)
                in case updateLedBar iaq (ms_led inp) of
                     None \<Rightarrow> None
                   | Some leds \<Rightarrow>
                       Some (updateForecast (lastPres s2) (s2\<lparr>ledLevels := leds\<rparr>),
                             [TaskRun SampleTask])))
      else Some (s, []))"

definition loop_graph :: "poll \<Rightarrow> state \<Rightarrow> (state \<times> event list) option" where
  "loop_graph inp s =
     (if ms_graph_test inp - lastGraphUpdate s > GRAPH_INTERVAL
      then
        (let s1 = s\<lparr>lastGraphUpdate := ms_graph_set inp\<rparr>
         in if lastTemp s1 \<noteq> 0
            then
              (let s2 = addGraphPoint (lastTemp s1) s1
               in case drawGraph (tempHistory s2) of
                    None \<Rightarrow> None
                  | Some ls \<Rightarrow> Some (s2, [TaskRun GraphTask, GraphDrawn ls]))
            else Some (s1, [TaskRun GraphTask]))
      else Some (s, []))"

definition loop :: "poll \<Rightarrow> state \<Rightarrow> (state \<times> event list) option" where
  "loop inp s =
     (let ev0 = handleClient inp s
      in case loop_clock inp s of (s1, ev1) \<Rightarrow>
           (case loop_sample inp s1 of
              None \<Rightarrow> None
            | Some (s2, ev2) \<Rightarrow>
               (case loop_graph inp s2 of
                  None \<Rightarrow> None
                | Some (s3, ev3) \<Rightarrow>
                    Some (runHeartbeat (ms_heartbeat inp) s3, ev0 @ ev1 @ ev2 @ ev3))))"

text \<open>Consecutive passes of the loop, the events of all of them in order.\<close>

fun run :: "poll list \<Rightarrow> state \<Rightarrow> (state \<times> event list) option" where
  "run [] s = Some (s, [])"
| "run (inp # inps) s =
     (case loop inp s of
        None \<Rightarrow> None
      | Some (s1, ev1) \<Rightarrow>
         (case run inps s1 of
            None \<Rightarrow> None
          | Some (s2, ev2) \<Rightarrow> Some (s2, ev1 @ ev2)))"

subsection \<open>The specification's formulas\<close>

text \<open>
  Definitions written after the words of the specification, to be compared with the
  functions above.
\<close>

text \<open>\<open>clamp(gasResistanceKOhm, bad, clean)\<close>.\<close>

definition clamp_spec :: "real \<Rightarrow> real \<Rightarrow> real \<Rightarrow> real" where
  "clamp_spec g bad clean = max bad (min clean g)"

text \<open>\<open>airQualityPercent = round((clean - clampedGas) * 100 / (clean - bad))\<close>.\<close>

definition airQualityPercent_spec :: "real \<Rightarrow> int" where
  "airQualityPercent_spec g = round ((150 - clamp_spec g 5 150) * 100 / (150 - 5))"

text \<open>
  The three classifications and the rule that selects one from
  \<open>diff = currentPressure - baselinePressure\<close>; \<open>trend_label\<close> gives the text the
  sketch stores for each.
\<close>

datatype trend = Rising | Falling | Stable




text \<open>\<open>active = floor(percent * (K + 1) / 100)\<close>, clamped to \<open>[0, K]\<close>, with \<open>K = numLeds\<close>.\<close>

definition segments_spec :: "int \<Rightarrow> int" where
  "segments_spec percent =
     min (int numLeds) (max 0 \<lfloor>real_of_int percent * (real numLeds + 1) / 100\<rfloor>)"

text \<open>The non-sentinel entries of a history buffer: those different from 0.\<close>

definition nonsentinel :: "real list \<Rightarrow> real set" where
  "nonsentinel h = {v \<in> set h. v \<noteq> 0}"

text \<open>
  A pass of the loop during which the clock does not advance: every \<open>millis()\<close> call
  returns \<open>t\<close>.
\<close>

definition steady_poll :: "32 word \<Rightarrow> bool \<Rightarrow> sample option \<Rightarrow> poll" where
  "steady_poll t req r =
     \<lparr>request = req, ms_clock_test = t, ms_clock_set = t, ms_update_test = t,
      ms_update_set = t, reading = r, ms_led = t, ms_graph_test = t, ms_graph_set = t,
      ms_heartbeat = t\<rparr>"

text \<open>A reading as the sensor gives it indoors: 21.5 degrees, 40 %, 101300 Pa, 50000 Ohm.\<close>

definition normal_sample :: sample where
  "normal_sample =
     \<lparr>temperature = 21.5, humidity = 40, pressure = 101300, gas_resistance = 50000\<rparr>"

text \<open>The pieces of a page that show a number.\<close>

fun is_number :: "piece \<Rightarrow> bool" where
  "is_number (Lit _) = False"
| "is_number (FloatStr _ _) = True"
| "is_number (IntStr _) = True"


section \<open>Properties of the rounding\<close>

lemma pow2_powr: "pow2 k = 2 powr (real_of_int k)"
  by (simp add: pow2_def powr_real_of_int field_simps)

lemma pow2_pos: "0 < pow2 k"
  by (simp add: pow2_powr)

lemma pow2_add: "pow2 (a + b) = pow2 a * pow2 b"
  by (simp add: pow2_powr powr_add)

lemma pow2_le: "pow2 a \<le> pow2 b \<longleftrightarrow> a \<le> b"
  by (simp add: pow2_powr)

lemma pow2_less: "pow2 a < pow2 b \<longleftrightarrow> a < b"
  by (simp add: pow2_powr)

lemma pow2_nat: "pow2 (int n) = 2 ^ n"
  by (simp add: pow2_def)

lemma pow2_0: "pow2 0 = 1" and pow2_1: "pow2 1 = 2"
  by (simp_all add: pow2_def)

lemma rne_int: "rne (of_int k) = k"
  by (simp add: rne_def)

lemma rne_cases: "rne x = \<lfloor>x\<rfloor> \<or> rne x = \<lfloor>x\<rfloor> + 1"
  by (simp add: rne_def Let_def)

lemma rne_mono: "x \<le> y \<Longrightarrow> rne x \<le> rne y"
proof -
  assume xy: "x \<le> y"
  then have f: "\<lfloor>x\<rfloor> \<le> \<lfloor>y\<rfloor>" by (rule floor_mono)
  show ?thesis
  proof (cases "\<lfloor>x\<rfloor> = \<lfloor>y\<rfloor>")
    case True
    then have "x - of_int \<lfloor>x\<rfloor> \<le> y - of_int \<lfloor>y\<rfloor>" using xy by simp
    then show ?thesis using True by (auto simp: rne_def Let_def)
  next
    case False
    with f have "\<lfloor>x\<rfloor> + 1 \<le> \<lfloor>y\<rfloor>" by simp
    moreover have "rne x \<le> \<lfloor>x\<rfloor> + 1" using rne_cases [of x] by auto
    moreover have "\<lfloor>y\<rfloor> \<le> rne y" using rne_cases [of y] by auto
    ultimately show ?thesis by linarith
  qed
qed

lemma expo_down_bracket:
  "0 < x \<Longrightarrow> x < 2 \<Longrightarrow>
   - int n \<le> expo_down n x \<and> x < pow2 (expo_down n x + 1)
   \<and> (pow2 (expo_down n x) \<le> x \<or> expo_down n x = - int n)"
proof (induction n arbitrary: x)
  case 0
  then show ?case by (simp add: pow2_1)
next
  case (Suc n)
  show ?case
  proof (cases "x < 1")
    case True
    then have "0 < 2 * x" "2 * x < 2" using Suc.prems by simp_all
    from Suc.IH [OF this] have a: "- int n \<le> expo_down n (2 * x)"
      and b: "2 * x < pow2 (expo_down n (2 * x) + 1)"
      and c: "pow2 (expo_down n (2 * x)) \<le> 2 * x \<or> expo_down n (2 * x) = - int n"
      by simp_all
    have s: "pow2 (k + 1) = 2 * pow2 k" for k
      by (simp add: pow2_add pow2_1)
    have s': "pow2 k = 2 * pow2 (k - 1)" for k
      using s [of "k - 1"] by simp
    from b have "x < pow2 (expo_down n (2 * x))" by (simp add: s)
    moreover from c have "pow2 (expo_down n (2 * x) - 1) \<le> x \<or> expo_down n (2 * x) = - int n"
      using s' [of "expo_down n (2 * x)"] by auto
    ultimately show ?thesis using True a by auto
  next
    case False
    then show ?thesis using Suc.prems by (simp add: pow2_0 pow2_1)
  qed
qed

lemma expo_up_bracket:
  "1 \<le> x \<Longrightarrow>
   0 \<le> expo_up n x \<and> expo_up n x \<le> int n \<and> pow2 (expo_up n x) \<le> x
   \<and> (x < pow2 (expo_up n x + 1) \<or> expo_up n x = int n)"
proof (induction n arbitrary: x)
  case 0
  then show ?case by (simp add: pow2_0)
next
  case (Suc n)
  show ?case
  proof (cases "2 \<le> x")
    case True
    then have "1 \<le> x / 2" by simp
    from Suc.IH [OF this] have a: "0 \<le> expo_up n (x / 2)" "expo_up n (x / 2) \<le> int n"
      and b: "pow2 (expo_up n (x / 2)) \<le> x / 2"
      and c: "x / 2 < pow2 (expo_up n (x / 2) + 1) \<or> expo_up n (x / 2) = int n"
      by simp_all
    have s: "pow2 (k + 1) = 2 * pow2 k" for k
      by (simp add: pow2_add pow2_1)
    from b have "pow2 (expo_up n (x / 2) + 1) \<le> x" by (simp add: s)
    moreover from c have "x < pow2 (expo_up n (x / 2) + 1 + 1) \<or> expo_up n (x / 2) = int n"
      using s [of "expo_up n (x / 2) + 1"] by auto
    ultimately show ?thesis using True a by auto
  next
    case False
    then show ?thesis using Suc.prems by (simp add: pow2_0 pow2_1)
  qed
qed

lemma expo_bracket:
  assumes "0 < x"
  shows "- int nd \<le> expo nd nu x" and "expo nd nu x \<le> int nu"
    and "x < pow2 (expo nd nu x + 1) \<or> expo nd nu x = int nu"
    and "pow2 (expo nd nu x) \<le> x \<or> expo nd nu x = - int nd"
proof -
  have "- int nd \<le> expo nd nu x \<and> expo nd nu x \<le> int nu
      \<and> (x < pow2 (expo nd nu x + 1) \<or> expo nd nu x = int nu)
      \<and> (pow2 (expo nd nu x) \<le> x \<or> expo nd nu x = - int nd)"
  proof (cases "1 \<le> x")
    case True
    from expo_up_bracket [OF True, of nu] True show ?thesis by (simp add: expo_def)
  next
    case False
    then have "x < 2" by simp
    from expo_down_bracket [OF assms this, of nd] False
    have a: "- int nd \<le> expo nd nu x" and b: "x < pow2 (expo nd nu x + 1)"
      and c: "pow2 (expo nd nu x) \<le> x \<or> expo nd nu x = - int nd"
      by (simp_all add: expo_def)
    have "pow2 (expo nd nu x) \<le> pow2 0 \<or> expo nd nu x = - int nd"
      using c False by (auto simp: pow2_0)
    then have "expo nd nu x \<le> 0" by (auto simp only: pow2_le)
    then have "expo nd nu x \<le> int nu" by simp
    with a b c show ?thesis by simp
  qed
  then show "- int nd \<le> expo nd nu x" and "expo nd nu x \<le> int nu"
    and "x < pow2 (expo nd nu x + 1) \<or> expo nd nu x = int nu"
    and "pow2 (expo nd nu x) \<le> x \<or> expo nd nu x = - int nd" by simp_all
qed

lemma round_pos_eq: "round_pos p nd nu x = of_int (rne (x / pow2 (expo nd nu x - int p + 1))) * pow2 (expo nd nu x - int p + 1)"
  by (simp add: round_pos_def Let_def)

lemma pow2_split: "pow2 a = pow2 (a - b) * pow2 b"
  using pow2_add [of "a - b" b] by simp

lemma round_pos_upper:
  assumes "x < pow2 (expo nd nu x + 1)"
  shows "round_pos p nd nu x \<le> pow2 (expo nd nu x + 1)"
proof -
  let ?u = "pow2 (expo nd nu x - int p + 1)"
  have u: "0 < ?u" by (rule pow2_pos)
  have "pow2 (expo nd nu x + 1) = pow2 (int p) * ?u"
    using pow2_add [of "int p" "expo nd nu x - int p + 1"] by simp
  then have s: "pow2 (expo nd nu x + 1) = of_int (2 ^ p) * ?u" by (simp add: pow2_nat)
  have "x < of_int (2 ^ p) * ?u" using assms s by simp
  then have "x / ?u \<le> of_int (2 ^ p)" using u by (simp add: pos_divide_le_eq)
  then have "rne (x / ?u) \<le> rne (of_int (2 ^ p))" by (rule rne_mono)
  then have "rne (x / ?u) \<le> 2 ^ p" by (simp only: rne_int)
  then have "real_of_int (rne (x / ?u)) \<le> of_int (2 ^ p)" by (simp only: of_int_le_iff)
  then have "real_of_int (rne (x / ?u)) * ?u \<le> of_int (2 ^ p) * ?u"
    using u by (simp only: mult_le_cancel_right_pos)
  then show ?thesis by (simp only: round_pos_eq s)
qed

lemma round_pos_lower:
  assumes "0 < p" and "pow2 (expo nd nu x) \<le> x"
  shows "pow2 (expo nd nu x) \<le> round_pos p nd nu x"
proof -
  let ?u = "pow2 (expo nd nu x - int p + 1)"
  have u: "0 < ?u" by (rule pow2_pos)
  have "pow2 (expo nd nu x) = pow2 (int (p - 1)) * ?u"
    using pow2_add [of "int (p - 1)" "expo nd nu x - int p + 1"] assms(1) by (simp add: of_nat_diff)
  then have s: "pow2 (expo nd nu x) = of_int (2 ^ (p - 1)) * ?u" by (simp add: pow2_nat)
  have "of_int (2 ^ (p - 1)) * ?u \<le> x" using assms(2) s by simp
  then have "of_int (2 ^ (p - 1)) \<le> x / ?u" using u by (simp add: pos_le_divide_eq)
  then have "rne (of_int (2 ^ (p - 1))) \<le> rne (x / ?u)" by (rule rne_mono)
  then have "2 ^ (p - 1) \<le> rne (x / ?u)" by (simp only: rne_int)
  then have "real_of_int (2 ^ (p - 1)) \<le> of_int (rne (x / ?u))" by (simp only: of_int_le_iff)
  then have "of_int (2 ^ (p - 1)) * ?u \<le> real_of_int (rne (x / ?u)) * ?u"
    using u by (simp only: mult_le_cancel_right_pos)
  then show ?thesis by (simp only: round_pos_eq s)
qed

lemma round_pos_nonneg:
  assumes "0 < x"
  shows "0 \<le> round_pos p nd nu x"
proof -
  let ?u = "pow2 (expo nd nu x - int p + 1)"
  have u: "0 < ?u" by (rule pow2_pos)
  have "0 \<le> x / ?u" using assms u by simp
  then have "rne 0 \<le> rne (x / ?u)" by (rule rne_mono)
  then have "0 \<le> rne (x / ?u)" using rne_int [of 0] by simp
  then show ?thesis using u by (simp add: round_pos_eq)
qed

lemma round_pos_mono:
  assumes "0 < p" and "0 < x" and "x \<le> y"
  shows "round_pos p nd nu x \<le> round_pos p nd nu y"
proof -
  have y: "0 < y" using assms by simp
  have le: "expo nd nu x \<le> expo nd nu y"
  proof (rule ccontr)
    assume "\<not> expo nd nu x \<le> expo nd nu y"
    then have g: "expo nd nu y + 1 \<le> expo nd nu x" by simp
    then have "expo nd nu x \<noteq> - int nd" using expo_bracket(1) [OF y, of nd nu] by simp
    then have "pow2 (expo nd nu x) \<le> x" using expo_bracket(4) [OF assms(2), of nd nu] by simp
    moreover have "expo nd nu y \<noteq> int nu" using g expo_bracket(2) [OF assms(2), of nd nu] by simp
    then have "y < pow2 (expo nd nu y + 1)" using expo_bracket(3) [OF y, of nd nu] by simp
    moreover have "pow2 (expo nd nu y + 1) \<le> pow2 (expo nd nu x)" using g by (simp only: pow2_le)
    ultimately show False using assms(3) by linarith
  qed
  show ?thesis
  proof (cases "expo nd nu x = expo nd nu y")
    case True
    let ?u = "pow2 (expo nd nu y - int p + 1)"
    have u: "0 < ?u" by (rule pow2_pos)
    have "x / ?u \<le> y / ?u" using assms(3) u by (simp add: divide_right_mono)
    then have "rne (x / ?u) \<le> rne (y / ?u)" by (rule rne_mono)
    then have "real_of_int (rne (x / ?u)) * ?u \<le> real_of_int (rne (y / ?u)) * ?u"
      using u by (simp only: mult_le_cancel_right_pos of_int_le_iff)
    then show ?thesis by (simp only: round_pos_eq True)
  next
    case False
    with le have lt: "expo nd nu x + 1 \<le> expo nd nu y" by simp
    then have "expo nd nu y \<noteq> - int nd" using expo_bracket(1) [OF assms(2), of nd nu] by simp
    then have "pow2 (expo nd nu y) \<le> y" using expo_bracket(4) [OF y, of nd nu] by simp
    then have "pow2 (expo nd nu y) \<le> round_pos p nd nu y" by (rule round_pos_lower [OF assms(1)])
    moreover have "expo nd nu x \<noteq> int nu" using lt expo_bracket(2) [OF y, of nd nu] by simp
    then have "x < pow2 (expo nd nu x + 1)" using expo_bracket(3) [OF assms(2), of nd nu] by simp
    then have "round_pos p nd nu x \<le> pow2 (expo nd nu x + 1)" by (rule round_pos_upper)
    moreover have "pow2 (expo nd nu x + 1) \<le> pow2 (expo nd nu y)" using lt by (simp only: pow2_le)
    ultimately show ?thesis by linarith
  qed
qed

lemma fl_mono:
  assumes "0 < p" and "x \<le> y"
  shows "fl p nd nu x \<le> fl p nd nu y"
proof -
  consider "0 < x" | "x = 0" | "x < 0" "y < 0" | "x < 0" "y = 0" | "x < 0" "0 < y"
    using assms(2) by linarith
  then show ?thesis
  proof cases
    case 1
    then show ?thesis using assms round_pos_mono [OF assms(1) 1 assms(2)] by (simp add: fl_def)
  next
    case 2
    then show ?thesis using assms round_pos_nonneg [of y p nd nu] by (auto simp: fl_def)
  next
    case 3
    then have "0 < - y" "- y \<le> - x" using assms by simp_all
    from round_pos_mono [OF assms(1) this] 3 show ?thesis by (simp add: fl_def)
  next
    case 4
    then show ?thesis using round_pos_nonneg [of "- x" p nd nu] by (simp add: fl_def)
  next
    case 5
    then show ?thesis using round_pos_nonneg [of "- x" p nd nu] round_pos_nonneg [of y p nd nu]
      by (simp add: fl_def)
  qed
qed

lemma round_pos_exact:
  assumes "0 < m" and "m < 2 ^ p" and "- int nd - int p + 1 \<le> k"
  shows "round_pos p nd nu (of_int m * pow2 k) = of_int m * pow2 k"
proof -
  define x where "x = real_of_int m * pow2 k"
  define e where "e = expo nd nu x"
  define u where "u = pow2 (e - int p + 1)"
  have x: "0 < x" using assms(1) pow2_pos [of k] by (simp add: x_def)
  have le: "e - int p + 1 \<le> k"
  proof (cases "e = - int nd")
    case True
    then show ?thesis using assms(3) by simp
  next
    case False
    then have "pow2 e \<le> x" using expo_bracket(4) [OF x, of nd nu] by (simp add: e_def)
    moreover have "real_of_int m < of_int (2 ^ p)" using assms(2) by (simp only: of_int_less_iff)
    then have "x < of_int (2 ^ p) * pow2 k" using pow2_pos [of k] by (simp add: x_def)
    then have "x < pow2 (int p + k)" by (simp add: pow2_add pow2_nat)
    ultimately have "pow2 e < pow2 (int p + k)" by linarith
    then have "e < int p + k" by (simp only: pow2_less)
    then show ?thesis by simp
  qed
  define j where "j = nat (k - (e - int p + 1))"
  have kj: "k = int j + (e - int p + 1)" using le by (simp add: j_def)
  have "pow2 k = pow2 (int j) * pow2 (e - int p + 1)"
    by (subst kj) (rule pow2_add)
  then have pk: "pow2 k = of_int (2 ^ j) * u" by (simp add: pow2_nat u_def)
  have u: "u \<noteq> 0" using pow2_pos [of "e - int p + 1"] by (simp add: u_def)
  have xu: "x = of_int (m * 2 ^ j) * u" by (simp add: x_def pk)
  then have "x / u = of_int (m * 2 ^ j)" using u by simp
  then have "rne (x / u) = m * 2 ^ j" by (simp only: rne_int)
  then have "of_int (rne (x / u)) * u = x" by (simp only: xu [symmetric])
  then have "round_pos p nd nu x = x" by (simp only: round_pos_eq e_def [symmetric] u_def [symmetric])
  then show ?thesis by (simp only: x_def)
qed

lemma fl_exact:
  assumes "\<bar>m\<bar> < 2 ^ p" and "- int nd - int p + 1 \<le> k"
  shows "fl p nd nu (of_int m * pow2 k) = of_int m * pow2 k"
proof -
  consider "m = 0" | "0 < m" | "m < 0" by linarith
  then show ?thesis
  proof cases
    case 1
    then show ?thesis by (simp add: fl_def)
  next
    case 2
    then have "0 < real_of_int m * pow2 k" using pow2_pos [of k] by simp
    moreover have "m < 2 ^ p" using assms(1) 2 by simp
    ultimately show ?thesis using round_pos_exact [OF 2 _ assms(2)] by (simp add: fl_def)
  next
    case 3
    then have n: "real_of_int m * pow2 k < 0" using pow2_pos [of k] by (simp add: mult_neg_pos)
    have m: "0 < - m" "- m < 2 ^ p" using assms(1) 3 by simp_all
    have "round_pos p nd nu (of_int (- m) * pow2 k) = of_int (- m) * pow2 k"
      by (rule round_pos_exact [OF m assms(2)])
    then show ?thesis using n by (simp add: fl_def)
  qed
qed

lemma f32_mono: "x \<le> y \<Longrightarrow> f32 x \<le> f32 y"
  unfolding f32_def by (rule fl_mono) simp

lemma f64_mono: "x \<le> y \<Longrightarrow> f64 x \<le> f64 y"
  unfolding f64_def by (rule fl_mono) simp

lemma f32_int: "\<bar>m\<bar> < 16777216 \<Longrightarrow> f32 (of_int m) = of_int m"
  using fl_exact [of m 24 126 0 127] by (simp add: f32_def pow2_0)


lemma f32_eighths: "\<bar>m\<bar> < 16777216 \<Longrightarrow> f32 (of_int m / 8) = of_int m / 8"
  using fl_exact [of m 24 126 "- 3" 127] by (simp add: f32_def pow2_def)

lemma f64_eighths: "\<bar>m\<bar> < 16777216 \<Longrightarrow> f64 (of_int m / 8) = of_int m / 8"
  using fl_exact [of m 53 1022 "- 3" 1023] by (simp add: f64_def pow2_def)

section \<open>Air-quality percentage\<close>

lemma c_trunc_nonneg: "0 \<le> x \<Longrightarrow> c_trunc x = \<lfloor>x\<rfloor>"
  by (simp add: c_trunc_def)

lemma c_trunc_mono: "x \<le> y \<Longrightarrow> c_trunc x \<le> c_trunc y"
proof -
  assume xy: "x \<le> y"
  have f: "\<lfloor>x\<rfloor> \<le> \<lfloor>y\<rfloor>" and c: "\<lceil>x\<rceil> \<le> \<lceil>y\<rceil>"
    using xy by (simp_all add: floor_mono ceiling_mono)
  show ?thesis
  proof (cases "0 \<le> x")
    case True
    then show ?thesis using xy f by (simp add: c_trunc_def)
  next
    case x: False
    show ?thesis
    proof (cases "0 \<le> y")
      case True
      have "\<lceil>x\<rceil> \<le> 0" using x by (simp add: ceiling_le_iff)
      moreover have "0 \<le> \<lfloor>y\<rfloor>" using True by simp
      ultimately have "\<lceil>x\<rceil> \<le> \<lfloor>y\<rfloor>" by linarith
      then show ?thesis using x True by (simp add: c_trunc_def)
    next
      case False
      then show ?thesis using x c by (simp add: c_trunc_def)
    qed
  qed
qed

lemma f32_145: "f32 145 = 145"
  by code_simp

lemma quotient_mono:
  "a \<le> b \<Longrightarrow> f64 (f64 (f32 a * 100) / f32 145) \<le> f64 (f64 (f32 b * 100) / f32 145)"
proof -
  assume "a \<le> b"
  then have "f32 a \<le> f32 b" by (rule f32_mono)
  then have "f32 a * 100 \<le> f32 b * 100" by simp
  then have "f64 (f32 a * 100) \<le> f64 (f32 b * 100)" by (rule f64_mono)
  then have "f64 (f32 a * 100) / f32 145 \<le> f64 (f32 b * 100) / f32 145"
    by (simp add: f32_145 divide_right_mono)
  then show ?thesis by (rule f64_mono)
qed

lemma mapGasToPercent_clamp:
  "mapGasToPercent g =
     c_trunc (f64 (f64 (f32 (150 - clamp_spec g 5 150) * 100) / f32 145))"
  by (simp add: mapGasToPercent_def clamp_spec_def Let_def max_def min_def)

lemma quotient_0: "f64 (f64 (f32 0 * 100) / f32 145) = 0"
  by code_simp

lemma quotient_145: "f64 (f64 (f32 145 * 100) / f32 145) = 100"
  by code_simp

text \<open>
  C4, as stated, fails: the sketch converts with \<open>(int)\<close>, which discards the fraction,
  where the specification rounds to the nearest integer. At 50 k\<Omega> the quotient is
  68.97: the sketch returns 68, the specification's formula 69.
\<close>

theorem C4_truncates_counterexample:
  "mapGasToPercent 50 = 68 \<and> airQualityPercent_spec 50 = 69
   \<and> mapGasToPercent 50 \<noteq> airQualityPercent_spec 50"
proof -
  have "mapGasToPercent 50 = 68" by code_simp
  moreover have "airQualityPercent_spec 50 = 69"
    by (simp add: airQualityPercent_spec_def clamp_spec_def round_def)
  ultimately show ?thesis by simp
qed

text \<open>
  C4, amended: for every gas resistance \<open>g\<close> the percentage is the integer part (the
  floor, the quotient being non-negative), not the nearest integer, of the quotient
  \<open>(clean - clamp(g, bad, clean)) * 100 / (clean - bad)\<close> as the sketch computes it,
  with \<open>bad = 5\<close> and \<open>clean = 150\<close>: the difference rounded to binary32, the
  product and the division rounded to binary64. It lies between 0 and 100 and never
  exceeds the nearest integer of that quotient.
\<close>

theorem C4_mapGasToPercent_floor:
  "mapGasToPercent g =
     \<lfloor>f64 (f64 (f32 (150 - clamp_spec g 5 150) * 100) / f32 145)\<rfloor>
   \<and> 0 \<le> mapGasToPercent g \<and> mapGasToPercent g \<le> 100
   \<and> mapGasToPercent g \<le> \<lfloor>f64 (f64 (f32 (150 - clamp_spec g 5 150) * 100) / f32 145) + 1 / 2\<rfloor>"
proof -
  let ?q = "f64 (f64 (f32 (150 - clamp_spec g 5 150) * 100) / f32 145)"
  have b: "0 \<le> 150 - clamp_spec g 5 150" "150 - clamp_spec g 5 150 \<le> 145"
    by (simp_all add: clamp_spec_def)
  have nn: "0 \<le> ?q" using quotient_mono [OF b(1)] by (simp only: quotient_0)
  have le: "?q \<le> 100" using quotient_mono [OF b(2)] by (simp only: quotient_145)
  have eq: "mapGasToPercent g = \<lfloor>?q\<rfloor>"
    unfolding mapGasToPercent_clamp using nn by (rule c_trunc_nonneg)
  have "0 \<le> \<lfloor>?q\<rfloor>" using nn by simp
  moreover have "\<lfloor>?q\<rfloor> \<le> 100" using le by (simp add: floor_le_iff)
  moreover have "\<lfloor>?q\<rfloor> \<le> \<lfloor>?q + 1 / 2\<rfloor>" by (rule floor_mono) simp
  ultimately show ?thesis using eq by simp
qed

text \<open>
  C9: an input of at most 5 gives 100, an input of at least 150 gives 0, and between 5
  and 150 the percentage does not increase when the gas resistance increases.
\<close>

theorem C9_saturation_and_monotonicity:
  "(g \<le> 5 \<longrightarrow> mapGasToPercent g = 100)
   \<and> (150 \<le> g \<longrightarrow> mapGasToPercent g = 0)
   \<and> (5 \<le> g1 \<and> g1 \<le> g2 \<and> g2 \<le> 150 \<longrightarrow> mapGasToPercent g2 \<le> mapGasToPercent g1)"
proof (intro conjI impI)
  assume "g \<le> 5"
  then have "clamp_spec g 5 150 = 5" by (simp add: clamp_spec_def)
  then have "mapGasToPercent g = c_trunc (f64 (f64 (f32 145 * 100) / f32 145))"
    by (simp add: mapGasToPercent_clamp)
  then show "mapGasToPercent g = 100" by (simp add: quotient_145 c_trunc_def)
next
  assume "150 \<le> g"
  then have "clamp_spec g 5 150 = 150" by (simp add: clamp_spec_def)
  then have "mapGasToPercent g = c_trunc (f64 (f64 (f32 0 * 100) / f32 145))"
    by (simp add: mapGasToPercent_clamp)
  then show "mapGasToPercent g = 0" by (simp add: quotient_0 c_trunc_def)
next
  assume a: "5 \<le> g1 \<and> g1 \<le> g2 \<and> g2 \<le> 150"
  then have "150 - clamp_spec g2 5 150 \<le> 150 - clamp_spec g1 5 150"
    by (simp add: clamp_spec_def)
  then show "mapGasToPercent g2 \<le> mapGasToPercent g1"
    unfolding mapGasToPercent_clamp by (intro c_trunc_mono quotient_mono)
qed

theorem C9_saturation_and_monotonicity_witness:
  "mapGasToPercent 3 = 100 \<and> mapGasToPercent 200 = 0
   \<and> mapGasToPercent 100 \<le> mapGasToPercent 50"
  using C9_saturation_and_monotonicity [of 3]
    C9_saturation_and_monotonicity [of 200]
    C9_saturation_and_monotonicity [of _ 50 100]
  by simp

section \<open>LED bar\<close>

lemma c_div_nonneg: "0 \<le> a \<Longrightarrow> 0 < b \<Longrightarrow> c_div a b = a div b"
  by (cases "a = 0") (simp_all add: c_div_def)

lemma map_long_percent:
  "0 \<le> p \<Longrightarrow> map_long p 0 100 0 (int numLeds + 1) = Some (p * 9 div 100)"
  by (simp add: map_long_def numLeds_def c_div_nonneg)

lemma blink_nat: "((n::nat) div 200) mod 2 = 0 \<longleftrightarrow> n mod 400 < 200"
proof -
  have e: "n mod (200 * 2) = 200 * (n div 200 mod 2) + n mod 200"
    by (rule mod_mult2_eq)
  have lt: "n mod 200 < 200" by simp
  have c: "n div 200 mod 2 = 0 \<or> n div 200 mod 2 = 1" by linarith
  from c show ?thesis
  proof
    assume "n div 200 mod 2 = 0"
    with e lt show ?thesis by simp
  next
    assume "n div 200 mod 2 = 1"
    with e show ?thesis by simp
  qed
qed

lemma blink_phase: "((ms :: 32 word) div 200) mod 2 = 0 \<longleftrightarrow> unat ms mod 400 < 200"
proof -
  have "((ms div 200) mod 2 = 0) = (unat ((ms div 200) mod 2) = 0)"
    by (simp add: unat_eq_0)
  also have "\<dots> = ((unat ms div 200) mod 2 = 0)"
    by (simp add: unat_mod_distrib unat_div_distrib)
  finally show ?thesis by (simp only: blink_nat)
qed

lemma bar_levels:
  "0 \<le> k \<Longrightarrow> nat k \<le> n \<Longrightarrow>
   map (\<lambda>i. int i < k) [0..<n] = replicate (nat k) True @ replicate (n - nat k) False"
  by (rule nth_equalityI) (auto simp: nth_append)

lemma segments_spec_eq: "segments_spec p = min 8 (max 0 (p * 9 div 100))"
proof -
  have "real_of_int p * (real numLeds + 1) / 100 = real_of_int (p * 9) / real_of_int 100"
    by (simp add: numLeds_def)
  then have "\<lfloor>real_of_int p * (real numLeds + 1) / 100\<rfloor> = p * 9 div 100"
    by (simp only: floor_divide_of_int_eq)
  then show ?thesis by (simp add: segments_spec_def numLeds_def)
qed

lemma segments_le90:
  assumes "0 \<le> p" and "p \<le> 90"
  shows "segments_spec p = p * 9 div 100" and "0 \<le> p * 9 div 100" and "p * 9 div 100 \<le> 8"
proof -
  show a: "0 \<le> p * 9 div 100" using assms by simp
  have "p * 9 \<le> 810" using assms by simp
  then have "p * 9 div 100 \<le> 810 div 100" by (rule zdiv_mono1) simp
  then show b: "p * 9 div 100 \<le> 8" by simp
  from a b show "segments_spec p = p * 9 div 100" by (simp add: segments_spec_eq)
qed

lemma segments_gt90:
  assumes "90 < (p::int)"
  shows "8 \<le> p * 9 div 100"
proof -
  have "819 \<le> p * 9" using assms by simp
  then have "819 div 100 \<le> p * 9 div 100" by (rule zdiv_mono1) simp
  then show ?thesis by simp
qed

lemma updateLedBar_total: "\<exists>leds. updateLedBar percent ms = Some leds"
  by (simp add: updateLedBar_def map_long_def Let_def)

text \<open>
  C7: for a percentage between 0 and 100 and any clock value, at most 90 lights the
  first \<open>floor(percent * (K + 1) / 100)\<close> segments (clamped to \<open>[0, K]\<close>, \<open>K = 8\<close>)
  and no other; above 90 the bar blinks instead: all segments off while the clock modulo
  400 is below 200, all segments on otherwise.
\<close>

theorem C7_led_bar:
  "0 \<le> percent \<Longrightarrow> percent \<le> 100 \<Longrightarrow>
   (percent \<le> 90 \<longrightarrow>
      updateLedBar percent ms =
        Some (replicate (nat (segments_spec percent)) True
              @ replicate (numLeds - nat (segments_spec percent)) False))
   \<and> (90 < percent \<and> unat ms mod 400 < 200 \<longrightarrow>
        updateLedBar percent ms = Some (replicate numLeds False))
   \<and> (90 < percent \<and> \<not> unat ms mod 400 < 200 \<longrightarrow>
        updateLedBar percent ms = Some (replicate numLeds True))"
proof (intro conjI impI)
  assume r: "0 \<le> percent" "percent \<le> 100" and le: "percent \<le> 90"
  have m: "map_long percent 0 100 0 (int numLeds + 1) = Some (percent * 9 div 100)"
    using r by (simp add: map_long_percent)
  note s = segments_le90 [OF r(1) le]
  have "updateLedBar percent ms = Some (map (\<lambda>i. int i < percent * 9 div 100) [0..<numLeds])"
    using r le m by (simp add: updateLedBar_def)
  also have "map (\<lambda>i. int i < percent * 9 div 100) [0..<numLeds]
      = replicate (nat (percent * 9 div 100)) True
        @ replicate (numLeds - nat (percent * 9 div 100)) False"
    using s(2,3) by (intro bar_levels) (simp_all add: numLeds_def)
  finally show "updateLedBar percent ms =
        Some (replicate (nat (segments_spec percent)) True
              @ replicate (numLeds - nat (segments_spec percent)) False)"
    by (simp only: s(1))
next
  assume r: "0 \<le> percent" "percent \<le> 100" and a: "90 < percent \<and> unat ms mod 400 < 200"
  have m: "map_long percent 0 100 0 (int numLeds + 1) = Some (percent * 9 div 100)"
    using r by (simp add: map_long_percent)
  show "updateLedBar percent ms = Some (replicate numLeds False)"
    using r a m by (simp add: updateLedBar_def blink_phase map_replicate_const)
next
  assume r: "0 \<le> percent" "percent \<le> 100"
    and a: "90 < percent \<and> \<not> unat ms mod 400 < 200"
  have m: "map_long percent 0 100 0 (int numLeds + 1) = Some (percent * 9 div 100)"
    using r by (simp add: map_long_percent)
  have "8 \<le> percent * 9 div 100" using a by (simp add: segments_gt90)
  then have "\<And>i. i < numLeds \<Longrightarrow> int i < percent * 9 div 100"
    by (simp add: numLeds_def)
  then have "map (\<lambda>i. int i < percent * 9 div 100) [0..<numLeds] = map (\<lambda>i. True) [0..<numLeds]"
    by (intro map_cong) auto
  then show "updateLedBar percent ms = Some (replicate numLeds True)"
    using r a m by (simp add: updateLedBar_def blink_phase map_replicate_const)
qed

theorem C7_led_bar_witness:
  "updateLedBar 50 0 = Some [True, True, True, True, False, False, False, False]
   \<and> updateLedBar 95 450 = Some [False, False, False, False, False, False, False, False]
   \<and> updateLedBar 95 250 = Some [True, True, True, True, True, True, True, True]"
proof -
  have s: "segments_spec 50 = 4" by (simp add: segments_spec_def numLeds_def)
  have n: "numLeds = 8" by (simp add: numLeds_def)
  have r: "replicate 8 x = [x, x, x, x, x, x, x, x]" "replicate 4 x = [x, x, x, x]"
    for x :: bool
    by (simp_all add: numeral_eq_Suc)
  show ?thesis
    using C7_led_bar [of 50 0] C7_led_bar [of 95 450] C7_led_bar [of 95 250]
    by (simp add: s n r)
qed

section \<open>History buffer\<close>

lemma shift_length:
  "length (fold (\<lambda>i h. h[i := h ! Suc i]) [0..<k] h) = length h"
  by (induction k) simp_all

lemma shift_nth:
  "k < length h \<Longrightarrow> i < length h \<Longrightarrow>
   fold (\<lambda>i h. h[i := h ! Suc i]) [0..<k] h ! i = (if i < k then h ! Suc i else h ! i)"
proof (induction k arbitrary: i)
  case 0
  then show ?case by simp
next
  case (Suc k)
  then have k: "k < length h" by simp
  have "fold (\<lambda>i h. h[i := h ! Suc i]) [0..<Suc k] h
      = (fold (\<lambda>i h. h[i := h ! Suc i]) [0..<k] h)
          [k := fold (\<lambda>i h. h[i := h ! Suc i]) [0..<k] h ! Suc k]"
    by simp
  also have "fold (\<lambda>i h. h[i := h ! Suc i]) [0..<k] h ! Suc k = h ! Suc k"
    using Suc.IH [OF k Suc.prems(1)] by simp
  finally show ?case
    using Suc.IH [OF k Suc.prems(2)] Suc.prems
    by (auto simp add: nth_list_update shift_length less_Suc_eq)
qed

lemma addGraphPoint_history:
  assumes "length (tempHistory s) = MAX_HISTORY"
  shows "tempHistory (addGraphPoint val s) = tl (tempHistory s) @ [val]"
proof (rule nth_equalityI)
  show "length (tempHistory (addGraphPoint val s)) = length (tl (tempHistory s) @ [val])"
    using assms by (simp add: addGraphPoint_def shift_length MAX_HISTORY_def)
next
  fix i assume "i < length (tempHistory (addGraphPoint val s))"
  then have i: "i < MAX_HISTORY" using assms by (simp add: addGraphPoint_def shift_length)
  show "tempHistory (addGraphPoint val s) ! i = (tl (tempHistory s) @ [val]) ! i"
  proof (cases "i = MAX_HISTORY - 1")
    case True
    then show ?thesis using assms
      by (simp add: addGraphPoint_def shift_length nth_append MAX_HISTORY_def)
  next
    case False
    with i have lt: "i < MAX_HISTORY - 1" by simp
    then show ?thesis using assms i
      by (simp add: addGraphPoint_def shift_length shift_nth nth_append nth_tl MAX_HISTORY_def)
  qed
qed

lemma addGraphPoint_length:
  "length (tempHistory (addGraphPoint val s)) = length (tempHistory s)"
  by (simp add: addGraphPoint_def shift_length)

lemma pushes_length:
  "length (tempHistory (fold addGraphPoint vs s)) = length (tempHistory s)"
  by (induction vs arbitrary: s) (simp_all add: addGraphPoint_length)

lemma pushes_history:
  "length (tempHistory s) = MAX_HISTORY \<Longrightarrow>
   tempHistory (fold addGraphPoint vs s) = drop (length vs) (tempHistory s @ vs)"
proof (induction vs arbitrary: s)
  case Nil
  then show ?case by simp
next
  case (Cons v vs)
  have l: "length (tempHistory (addGraphPoint v s)) = MAX_HISTORY"
    using Cons.prems by (simp add: addGraphPoint_length)
  from Cons.prems obtain x xs where h: "tempHistory s = x # xs"
    by (cases "tempHistory s") (simp_all add: MAX_HISTORY_def)
  show ?case
    using Cons.IH [OF l] Cons.prems h by (simp add: addGraphPoint_history del: drop_append)
qed

lemma initial_history_length: "length (tempHistory initial_state) = MAX_HISTORY"
  by (simp add: initial_state_def)

text \<open>
  C5: on a buffer of \<open>N = 40\<close> entries a push moves every element one place towards the
  head (the new entry \<open>i\<close> is the old entry \<open>i + 1\<close> for \<open>i < N - 1\<close>, the old
  entry 0 is gone), writes the value at index \<open>N - 1\<close>, and leaves \<open>N\<close> entries, after
  any number of pushes; the values pushed sit at the tail in the order they were pushed.
\<close>

theorem C5_push_shifts:
  "length (tempHistory s) = MAX_HISTORY \<Longrightarrow>
   length (tempHistory (addGraphPoint v s)) = MAX_HISTORY
   \<and> (\<forall>i. i < MAX_HISTORY - 1 \<longrightarrow>
         tempHistory (addGraphPoint v s) ! i = tempHistory s ! (i + 1))
   \<and> tempHistory (addGraphPoint v s) ! (MAX_HISTORY - 1) = v
   \<and> length (tempHistory (fold addGraphPoint vs s)) = MAX_HISTORY
   \<and> tempHistory (fold addGraphPoint vs s) = drop (length vs) (tempHistory s @ vs)"
proof (intro conjI allI impI)
  assume a: "length (tempHistory s) = MAX_HISTORY"
  show "length (tempHistory (addGraphPoint v s)) = MAX_HISTORY"
    using a by (simp add: addGraphPoint_length)
  show "tempHistory (addGraphPoint v s) ! (MAX_HISTORY - 1) = v"
    using a by (simp add: addGraphPoint_history nth_append MAX_HISTORY_def)
  show "length (tempHistory (fold addGraphPoint vs s)) = MAX_HISTORY"
    using a by (simp add: pushes_length)
  show "tempHistory (fold addGraphPoint vs s) = drop (length vs) (tempHistory s @ vs)"
    using a by (rule pushes_history)
next
  fix i
  assume a: "length (tempHistory s) = MAX_HISTORY" and i: "i < MAX_HISTORY - 1"
  then show "tempHistory (addGraphPoint v s) ! i = tempHistory s ! (i + 1)"
    by (simp add: addGraphPoint_history nth_append nth_tl MAX_HISTORY_def)
qed

theorem C5_push_shifts_witness:
  "tempHistory (fold addGraphPoint [21, 22, 23] initial_state) = replicate 37 0 @ [21, 22, 23]"
  using C5_push_shifts [OF initial_history_length, of 21 "[21, 22, 23]"]
  by (simp add: initial_state_def MAX_HISTORY_def)

lemma drawGraph_scan_simps:
  "drawGraph_scan 0 (a, b) = (a, b)"
  "v \<noteq> 0 \<Longrightarrow> drawGraph_scan v (a, b) = (min v a, max v b)"
  by (auto simp: drawGraph_scan_def Let_def min_def max_def)

lemma minmax_as_fold:
  assumes "length h = MAX_HISTORY"
  shows "drawGraph_minmax h = fold drawGraph_scan h (100, - 100)"
proof -
  have "map ((!) h) [0..<MAX_HISTORY] = h"
    using assms map_nth [of h] by simp
  then have "fold drawGraph_scan h (100, - 100)
      = fold drawGraph_scan (map ((!) h) [0..<MAX_HISTORY]) (100, - 100)"
    by simp
  also have "\<dots> = fold (\<lambda>i. drawGraph_scan (h ! i)) [0..<MAX_HISTORY] (100, - 100)"
    by (simp only: fold_map comp_def)
  finally show ?thesis by (simp add: drawGraph_minmax_def)
qed

lemma Min_shift:
  "finite N \<Longrightarrow> Min (insert (min v a) N) = Min (insert a (insert v N))"
  by (cases "N = {}") (simp_all add: ac_simps)

lemma Max_shift:
  "finite N \<Longrightarrow> Max (insert (max v b) N) = Max (insert b (insert v N))"
  by (cases "N = {}") (simp_all add: ac_simps)

lemma scan_fold:
  "fold drawGraph_scan xs (a, b) =
     (Min (insert a (nonsentinel xs)), Max (insert b (nonsentinel xs)))"
proof (induction xs arbitrary: a b)
  case Nil
  then show ?case by (simp add: nonsentinel_def)
next
  case (Cons x xs)
  show ?case
  proof (cases "x = 0")
    case True
    then have "nonsentinel (x # xs) = nonsentinel xs" by (auto simp: nonsentinel_def)
    then show ?thesis using True Cons.IH by (simp add: drawGraph_scan_simps)
  next
    case False
    then have n: "nonsentinel (x # xs) = insert x (nonsentinel xs)"
      by (auto simp: nonsentinel_def)
    have f: "finite (nonsentinel xs)" by (simp add: nonsentinel_def)
    show ?thesis
      using False Cons.IH [of "min x a" "max x b"]
      by (simp add: drawGraph_scan_simps n Min_shift [OF f] Max_shift [OF f])
  qed
qed

lemma minmax_general:
  assumes "length h = MAX_HISTORY"
  shows "drawGraph_minmax h =
           (Min (insert 100 (nonsentinel h)), Max (insert (- 100) (nonsentinel h)))"
  using assms by (simp add: minmax_as_fold scan_fold)

text \<open>
  C6, as stated, fails: the scan starts from \<open>minVal = 100\<close> and \<open>maxVal = -100\<close>, and
  these starting values take part in the comparison. With 150 as the only non-sentinel
  entry the scan leaves \<open>minVal = 100\<close>, although the minimum of the entries is 150.
\<close>

theorem C6_scan_start_counterexample:
  "length (replicate 39 0 @ [150 :: real]) = MAX_HISTORY
   \<and> nonsentinel (replicate 39 0 @ [150]) = {150}
   \<and> drawGraph_minmax (replicate 39 0 @ [150]) = (100, 150)
   \<and> fst (drawGraph_minmax (replicate 39 0 @ [150])) \<noteq> Min (nonsentinel (replicate 39 0 @ [150]))"
proof -
  have n: "nonsentinel (replicate 39 0 @ [150]) = {150}"
    by (auto simp: nonsentinel_def)
  have l: "length (replicate 39 0 @ [150 :: real]) = MAX_HISTORY"
    by (simp add: MAX_HISTORY_def)
  have m: "drawGraph_minmax (replicate 39 0 @ [150]) = (100, 150)"
    by (simp add: minmax_general [OF l] n)
  show ?thesis using l by (simp add: n m)
qed

text \<open>
  C6, amended: for a buffer of 40 entries with at least one non-sentinel entry, the scan
  yields \<open>min(100, m)\<close> and \<open>max(-100, M)\<close> for the minimum \<open>m\<close> and the maximum
  \<open>M\<close> of the non-sentinel entries; when every non-sentinel entry lies in
  \<open>[-100, 100]\<close> these are \<open>m\<close> and \<open>M\<close> themselves.
\<close>

theorem C6_minmax:
  "length h = MAX_HISTORY \<Longrightarrow> nonsentinel h \<noteq> {} \<Longrightarrow>
   drawGraph_minmax h = (min 100 (Min (nonsentinel h)), max (- 100) (Max (nonsentinel h)))
   \<and> ((\<forall>v \<in> nonsentinel h. - 100 \<le> v \<and> v \<le> 100) \<longrightarrow>
        drawGraph_minmax h = (Min (nonsentinel h), Max (nonsentinel h)))"
proof -
  assume a: "length h = MAX_HISTORY" "nonsentinel h \<noteq> {}"
  have f: "finite (nonsentinel h)" by (simp add: nonsentinel_def)
  have g: "drawGraph_minmax h =
           (min 100 (Min (nonsentinel h)), max (- 100) (Max (nonsentinel h)))"
    using a f by (simp add: minmax_general)
  have "drawGraph_minmax h = (Min (nonsentinel h), Max (nonsentinel h))"
    if b: "\<forall>v \<in> nonsentinel h. - 100 \<le> v \<and> v \<le> 100"
  proof -
    have "Min (nonsentinel h) \<in> nonsentinel h" "Max (nonsentinel h) \<in> nonsentinel h"
      using f a(2) by simp_all
    with b have "Min (nonsentinel h) \<le> 100" "- 100 \<le> Max (nonsentinel h)" by auto
    then show ?thesis by (simp add: g)
  qed
  with g show ?thesis by blast
qed

theorem C6_minmax_witness:
  "drawGraph_minmax (replicate 37 0 @ [21, 23, 22]) = (21, 23)"
proof -
  have n: "nonsentinel (replicate 37 0 @ [21, 23, 22]) = {21, 23, 22}"
    by (auto simp: nonsentinel_def)
  have l: "length (replicate 37 0 @ [21, 23, 22 :: real]) = MAX_HISTORY"
    by (simp add: MAX_HISTORY_def)
  have e: "nonsentinel (replicate 37 0 @ [21, 23, 22]) \<noteq> {}"
    by (simp add: n)
  have b: "\<forall>v \<in> nonsentinel (replicate 37 0 @ [21, 23, 22]). - 100 \<le> v \<and> v \<le> 100"
    by (simp add: n)
  show ?thesis
    using C6_minmax [OF l e] b by (simp add: n)
qed

lemma scan_zero:
  "(\<forall>i \<in> set is. h ! i = 0) \<Longrightarrow> fold (\<lambda>i. drawGraph_scan (h ! i)) is mm = mm"
  by (induction "is" arbitrary: mm) (simp_all add: drawGraph_scan_def split: prod.splits)

lemma minmax_all_zero:
  "(\<forall>i. i < MAX_HISTORY \<longrightarrow> h ! i = 0) \<Longrightarrow> drawGraph_minmax h = (100, - 100)"
  unfolding drawGraph_minmax_def by (rule scan_zero) simp

lemma c_trunc_close: "x - 1 < real_of_int (c_trunc x)" "real_of_int (c_trunc x) < x + 1"
  by (simp_all add: c_trunc_def) linarith+

lemma f3264_eighths:
  "\<bar>m\<bar> < 16777216 \<Longrightarrow> f32 (f64 (of_int m / 8)) = of_int m / 8"
  by (simp add: f32_eighths f64_eighths)

lemma grid_apart:
  assumes m: "\<bar>m\<bar> \<le> 10000" and lo: "lo \<le> of_int m / 8" and hi: "of_int m / 8 + 1 / 2 \<le> hi"
  shows "c_trunc (f32 (hi * 10)) - c_trunc (f32 (lo * 10)) \<noteq> 0"
proof -
  have a: "\<bar>10 * m\<bar> < 16777216" "\<bar>10 * m + 40\<bar> < 16777216" using m by simp_all
  have "lo * 10 \<le> of_int (10 * m) / 8" using lo by simp
  then have "f32 (lo * 10) \<le> f32 (of_int (10 * m) / 8)" by (rule f32_mono)
  then have l: "f32 (lo * 10) \<le> of_int (10 * m) / 8" by (simp only: f32_eighths [OF a(1)])
  have "of_int (10 * m + 40) / 8 \<le> hi * 10" using hi by simp
  then have "f32 (of_int (10 * m + 40) / 8) \<le> f32 (hi * 10)" by (rule f32_mono)
  then have h: "of_int (10 * m + 40) / 8 \<le> f32 (hi * 10)" by (simp only: f32_eighths [OF a(2)])
  have "real_of_int (c_trunc (f32 (lo * 10))) < f32 (lo * 10) + 1" by (rule c_trunc_close)
  moreover have "f32 (hi * 10) - 1 < real_of_int (c_trunc (f32 (hi * 10)))" by (rule c_trunc_close)
  ultimately have "real_of_int (c_trunc (f32 (lo * 10))) < real_of_int (c_trunc (f32 (hi * 10)))"
    using l h by simp
  then show ?thesis by simp
qed

lemma scan_shrinks:
  "fst (drawGraph_scan v mm) \<le> fst mm \<and> snd mm \<le> snd (drawGraph_scan v mm)"
  by (cases mm) (simp add: drawGraph_scan_def Let_def)

lemma scan_fold_bounds:
  "fst (fold (\<lambda>i. drawGraph_scan (h ! i)) is mm) \<le> fst mm
   \<and> snd mm \<le> snd (fold (\<lambda>i. drawGraph_scan (h ! i)) is mm)"
proof (induction "is" arbitrary: mm)
  case Nil
  then show ?case by simp
next
  case (Cons i "is")
  from Cons [of "drawGraph_scan (h ! i) mm"] scan_shrinks [of "h ! i" mm]
  show ?case by simp
qed

lemma minmax_bounds: "fst (drawGraph_minmax h) \<le> 100" "- 100 \<le> snd (drawGraph_minmax h)"
  using scan_fold_bounds [of h "[0..<MAX_HISTORY]" "(100, - 100)"]
  by (simp_all add: drawGraph_minmax_def)

lemma c02: "1 / 5 \<le> f64 (1 / 5)" "f64 (1 / 5) \<le> 1 / 4"
  by code_simp+

lemma f32_half: "f32 (1 / 2) = 1 / 2" and f32_one: "f32 1 = 1"
  by code_simp+

lemma widen_grid:
  assumes mn: "mn \<le> 100" and mx: "- 100 \<le> mx" and d: "f32 (mx - mn) < 1"
  shows "\<exists>m. \<bar>m\<bar> \<le> 10000
    \<and> f32 (f32 (f32 (mx + mn) / 2) - 1) \<le> of_int m / 8
    \<and> of_int m / 8 + 1 / 2 \<le> f32 (f32 (f32 (mx + mn) / 2) + 1)"
proof -
  define mid where "mid = f32 (f32 (mx + mn) / 2)"
  have lt: "mx - mn < 1"
  proof (rule ccontr)
    assume "\<not> mx - mn < 1"
    then have "f32 1 \<le> f32 (mx - mn)" by (intro f32_mono) simp
    with d show False by (simp add: f32_one)
  qed
  have "of_int (- 201) \<le> mx + mn" "mx + mn \<le> of_int 201" using mn mx lt by simp_all
  then have "f32 (of_int (- 201)) \<le> f32 (mx + mn)" "f32 (mx + mn) \<le> f32 (of_int 201)"
    by (simp_all only: f32_mono)
  then have "of_int (- 201) \<le> f32 (mx + mn)" "f32 (mx + mn) \<le> of_int 201"
    using f32_int [of "- 201"] f32_int [of 201] by simp_all
  then have "of_int (- 804) / 8 \<le> f32 (mx + mn) / 2" "f32 (mx + mn) / 2 \<le> of_int 804 / 8"
    by simp_all
  then have "f32 (of_int (- 804) / 8) \<le> mid" "mid \<le> f32 (of_int 804 / 8)"
    unfolding mid_def by (simp_all only: f32_mono)
  moreover have "f32 (of_int (- 804) / 8) = of_int (- 804) / 8"
    "f32 (of_int 804 / 8) = of_int 804 / 8"
    by (rule f32_eighths, simp)+
  ultimately have b: "- 201 / 2 \<le> mid" "mid \<le> 201 / 2"
    by simp_all
  define n where "n = \<lceil>mid - 1\<rceil>"
  have n1: "mid - 1 \<le> of_int n" by (simp add: n_def)
  have n2: "of_int n < mid" using ceiling_correct [of "mid - 1"] by (simp add: n_def)
  have nb: "- 102 \<le> n" "n \<le> 101"
  proof -
    have "real_of_int (- 103) < of_int n" using n1 b by simp
    then show "- 102 \<le> n" by simp
    have "real_of_int n < of_int 101" using n2 b by simp
    then show "n \<le> 101" by simp
  qed
  have "f32 (mid - 1) \<le> f32 (of_int n)" using n1 by (rule f32_mono)
  then have lo: "f32 (mid - 1) \<le> of_int (8 * n) / 8" using nb by (simp add: f32_int)
  have "of_int (n + 1) \<le> mid + 1" using n2 by simp
  then have "f32 (of_int (n + 1)) \<le> f32 (mid + 1)" by (rule f32_mono)
  moreover have "f32 (of_int (n + 1)) = of_int (n + 1)" using nb by (intro f32_int) simp
  ultimately have "of_int (n + 1) \<le> f32 (mid + 1)" by (simp only:)
  then have hi: "of_int (8 * n) / 8 + 1 / 2 \<le> f32 (mid + 1)" by simp
  have "\<bar>8 * n\<bar> \<le> 10000" using nb by simp
  with lo hi show ?thesis unfolding mid_def by blast
qed

lemma pad_grid:
  assumes mn: "mn \<le> 100" and mx: "- 100 \<le> mx" and d: "\<not> f32 (mx - mn) < 1"
  shows "\<exists>m. \<bar>m\<bar> \<le> 10000
    \<and> f32 (f64 (mn - f64 0.2)) \<le> of_int m / 8
    \<and> of_int m / 8 + 1 / 2 \<le> f32 (f64 (mx + f64 0.2))"
proof -
  define c where "c = f64 0.2"
  have c: "1 / 5 \<le> c" "c \<le> 1 / 4" using c02 by (simp_all add: c_def)
  have ge: "1 / 2 \<le> mx - mn"
  proof (rule ccontr)
    assume "\<not> 1 / 2 \<le> mx - mn"
    then have "f32 (mx - mn) \<le> f32 (1 / 2)" by (intro f32_mono) simp
    with d show False by (simp add: f32_half)
  qed
  have below: "f32 (f64 (mn - c)) \<le> of_int m / 8"
    if "mn - c \<le> of_int m / 8" "\<bar>m\<bar> \<le> 10000" for m
  proof -
    have "f32 (f64 (mn - c)) \<le> f32 (f64 (of_int m / 8))"
      using that(1) by (intro f32_mono f64_mono)
    then show ?thesis using that(2) by (simp add: f3264_eighths)
  qed
  have above: "of_int m / 8 \<le> f32 (f64 (mx + c))"
    if "of_int m / 8 \<le> mx + c" "\<bar>m\<bar> \<le> 10000" for m
  proof -
    have "f32 (f64 (of_int m / 8)) \<le> f32 (f64 (mx + c))"
      using that(1) by (intro f32_mono f64_mono)
    then show ?thesis using that(2) by (simp add: f3264_eighths)
  qed
  consider "1000 < mx" | "mn < - 1000" | "- 1000 \<le> mn" "mx \<le> 1000" by linarith
  then have "\<exists>m. \<bar>m\<bar> \<le> 10000 \<and> f32 (f64 (mn - c)) \<le> of_int m / 8
    \<and> of_int m / 8 + 1 / 2 \<le> f32 (f64 (mx + c))"
  proof cases
    case 1
    have "f32 (f64 (mn - c)) \<le> of_int 800 / 8" using mn c by (intro below) simp_all
    moreover have "of_int 8000 / 8 \<le> f32 (f64 (mx + c))" using 1 c by (intro above) simp_all
    ultimately have "\<bar>800::int\<bar> \<le> 10000 \<and> f32 (f64 (mn - c)) \<le> of_int 800 / 8
      \<and> of_int 800 / 8 + 1 / 2 \<le> f32 (f64 (mx + c))" by simp
    then show ?thesis by blast
  next
    case 2
    have "f32 (f64 (mn - c)) \<le> of_int (- 8000) / 8" using 2 c by (intro below) simp_all
    moreover have "of_int (- 800) / 8 \<le> f32 (f64 (mx + c))" using mx c by (intro above) simp_all
    ultimately have "\<bar>- 8000::int\<bar> \<le> 10000 \<and> f32 (f64 (mn - c)) \<le> of_int (- 8000) / 8
      \<and> of_int (- 8000) / 8 + 1 / 2 \<le> f32 (f64 (mx + c))" by simp
    then show ?thesis by blast
  next
    case 3
    define m where "m = \<lceil>(mn - c) * 8\<rceil>"
    have m1: "(mn - c) * 8 \<le> of_int m" by (simp add: m_def)
    have m2: "of_int m < (mn - c) * 8 + 1"
      using ceiling_correct [of "(mn - c) * 8"] by (simp add: m_def)
    have mb: "- 8003 \<le> m" "m \<le> 800"
    proof -
      have "real_of_int (- 8003) \<le> of_int m" using m1 3 c by simp
      then show "- 8003 \<le> m" by (simp only: of_int_le_iff)
      have "real_of_int m < of_int 800" using m2 mn c by simp
      then show "m \<le> 800" by simp
    qed
    have lo: "f32 (f64 (mn - c)) \<le> of_int m / 8" using m1 mb by (intro below) simp_all
    have "of_int (m + 4) / 8 \<le> mx + c" using m2 ge c by simp
    then have "of_int (m + 4) / 8 \<le> f32 (f64 (mx + c))" using mb by (intro above) simp_all
    then have hi: "of_int m / 8 + 1 / 2 \<le> f32 (f64 (mx + c))" by simp
    have "\<bar>m\<bar> \<le> 10000" using mb by simp
    with lo hi show ?thesis by blast
  qed
  then show ?thesis by (simp only: c_def)
qed

lemma range_grid:
  "\<exists>m. \<bar>m\<bar> \<le> 10000 \<and> fst (drawGraph_range h) \<le> of_int m / 8
       \<and> of_int m / 8 + 1 / 2 \<le> snd (drawGraph_range h)"
proof -
  obtain mn mx where mm: "drawGraph_minmax h = (mn, mx)" by (cases "drawGraph_minmax h")
  have b: "mn \<le> 100" "- 100 \<le> mx" using minmax_bounds [of h] by (simp_all add: mm)
  show ?thesis
  proof (cases "f32 (mx - mn) < 1")
    case True
    from widen_grid [OF b True] True show ?thesis
      by (simp add: drawGraph_range_def mm Let_def)
  next
    case False
    from pad_grid [OF b False] False show ?thesis
      by (simp add: drawGraph_range_def mm)
  qed
qed

lemma range_divisor:
  "c_trunc (f32 (snd (drawGraph_range h) * 10))
     - c_trunc (f32 (fst (drawGraph_range h) * 10)) \<noteq> 0"
  using range_grid [of h] grid_apart by blast

lemma range_width: "fst (drawGraph_range h) + 1 / 2 \<le> snd (drawGraph_range h)"
  using range_grid [of h] by auto

lemma lines_total:
  "c_trunc (f32 (maxVal * 10)) - c_trunc (f32 (minVal * 10)) \<noteq> 0 \<Longrightarrow>
   \<exists>ls. drawGraph_lines minVal maxVal h is = Some ls"
  by (induction "is") (auto simp: map_long_def)

lemma drawGraph_total: "\<exists>ls. drawGraph h = Some ls"
proof -
  obtain lo hi where r: "drawGraph_range h = (lo, hi)" by (cases "drawGraph_range h")
  with range_divisor [of h] have "c_trunc (f32 (hi * 10)) - c_trunc (f32 (lo * 10)) \<noteq> 0"
    by simp
  then show ?thesis by (simp add: drawGraph_def r lines_total)
qed

text \<open>
  C3, as stated, fails in its figures: the bounds are rounded to binary32, so the padded
  range is not exactly \<open>[min - 0.2, max + 0.2]\<close> and its width can fall below 1.4. With
  5 and 6 as the only non-sentinel entries the width is 734003/524288, about 1.3999996.
\<close>

theorem C3_padding_counterexample:
  "drawGraph_minmax (replicate 38 0 @ [5, 6]) = (5, 6)
   \<and> snd (drawGraph_range (replicate 38 0 @ [5, 6]))
       - fst (drawGraph_range (replicate 38 0 @ [5, 6])) = 734003 / 524288
   \<and> snd (drawGraph_range (replicate 38 0 @ [5, 6]))
       - fst (drawGraph_range (replicate 38 0 @ [5, 6])) < 1.4"
  by code_simp

text \<open>
  C3, amended: whatever the buffer holds, the range used for scaling has a width above
  zero, at least 0.5. When the scanned \<open>maxVal - minVal\<close>, rounded to binary32, is below 1
  (as it is when every entry is the sentinel, where the range is exactly \<open>[-1, 1]\<close>) the
  range is the midpoint minus and plus 1, each bound rounded to binary32; otherwise it is
  \<open>[minVal - 0.2, maxVal + 0.2]\<close> with each bound computed in binary64 and rounded to
  binary32, so its width is \<open>maxVal - minVal + 0.4\<close> up to rounding. The divisor of the
  value-to-coordinate mapping, the difference of the two bounds times ten as integers, is
  never zero, and \<open>drawGraph\<close> has a result for every buffer.
\<close>

theorem C3_range_never_degenerate:
  "(f32 (snd (drawGraph_minmax h) - fst (drawGraph_minmax h)) < 1 \<longrightarrow>
      drawGraph_range h =
        (f32 (f32 (f32 (snd (drawGraph_minmax h) + fst (drawGraph_minmax h)) / 2) - 1),
         f32 (f32 (f32 (snd (drawGraph_minmax h) + fst (drawGraph_minmax h)) / 2) + 1)))
   \<and> (\<not> f32 (snd (drawGraph_minmax h) - fst (drawGraph_minmax h)) < 1 \<longrightarrow>
        drawGraph_range h =
          (f32 (f64 (fst (drawGraph_minmax h) - f64 0.2)),
           f32 (f64 (snd (drawGraph_minmax h) + f64 0.2))))
   \<and> ((\<forall>i. i < MAX_HISTORY \<longrightarrow> h ! i = 0) \<longrightarrow> drawGraph_range h = (- 1, 1))
   \<and> 1 / 2 \<le> snd (drawGraph_range h) - fst (drawGraph_range h)
   \<and> c_trunc (f32 (snd (drawGraph_range h) * 10))
       - c_trunc (f32 (fst (drawGraph_range h) * 10)) \<noteq> 0
   \<and> (\<exists>ls. drawGraph h = Some ls)"
proof (intro conjI impI)
  assume "f32 (snd (drawGraph_minmax h) - fst (drawGraph_minmax h)) < 1"
  then show "drawGraph_range h =
        (f32 (f32 (f32 (snd (drawGraph_minmax h) + fst (drawGraph_minmax h)) / 2) - 1),
         f32 (f32 (f32 (snd (drawGraph_minmax h) + fst (drawGraph_minmax h)) / 2) + 1))"
    by (simp add: drawGraph_range_def Let_def case_prod_beta)
next
  assume "\<not> f32 (snd (drawGraph_minmax h) - fst (drawGraph_minmax h)) < 1"
  then show "drawGraph_range h =
          (f32 (f64 (fst (drawGraph_minmax h) - f64 0.2)),
           f32 (f64 (snd (drawGraph_minmax h) + f64 0.2)))"
    by (simp add: drawGraph_range_def Let_def case_prod_beta)
next
  assume "\<forall>i. i < MAX_HISTORY \<longrightarrow> h ! i = 0"
  then have m: "drawGraph_minmax h = (100, - 100)" by (rule minmax_all_zero)
  have "(if f32 (- 100 - 100) < 1
         then (let mid = f32 (f32 (- 100 + 100) / 2) in (f32 (mid - 1), f32 (mid + 1)))
         else (f32 (f64 (100 - f64 0.2)), f32 (f64 (- 100 + f64 0.2)))) = (- 1, 1 :: real)"
    by code_simp
  then show "drawGraph_range h = (- 1, 1)" by (simp add: drawGraph_range_def m)
next
  show "1 / 2 \<le> snd (drawGraph_range h) - fst (drawGraph_range h)"
    using range_width [of h] by simp
  show "c_trunc (f32 (snd (drawGraph_range h) * 10))
       - c_trunc (f32 (fst (drawGraph_range h) * 10)) \<noteq> 0"
    by (rule range_divisor)
  show "\<exists>ls. drawGraph h = Some ls" by (rule drawGraph_total)
qed

theorem C3_range_never_degenerate_witness:
  "drawGraph_range (replicate 40 0) = (- 1, 1)
   \<and> drawGraph_range (replicate 40 (43 / 2)) = (41 / 2, 45 / 2)
   \<and> drawGraph_range (replicate 38 0 @ [20, 25]) = (5190451 / 262144, 6606029 / 262144)
   \<and> (\<exists>ls. drawGraph (replicate 40 (43 / 2)) = Some ls)"
proof -
  have z: "\<forall>i. i < MAX_HISTORY \<longrightarrow> replicate 40 (0::real) ! i = 0"
    by (simp add: MAX_HISTORY_def)
  have a: "drawGraph_range (replicate 40 0) = (- 1, 1)"
    using C3_range_never_degenerate [of "replicate 40 0"] z by blast
  have m: "drawGraph_minmax (replicate 40 (43 / 2)) = (43 / 2, 43 / 2)"
    by code_simp
  have l: "f32 (43 / 2 - 43 / 2) < 1" by code_simp
  have e: "(f32 (f32 (f32 (43 / 2 + 43 / 2) / 2) - 1), f32 (f32 (f32 (43 / 2 + 43 / 2) / 2) + 1))
      = (41 / 2, 45 / 2 :: real)"
    by code_simp
  have b: "drawGraph_range (replicate 40 (43 / 2)) = (41 / 2, 45 / 2)"
    using C3_range_never_degenerate [of "replicate 40 (43 / 2)"] l
    unfolding m fst_conv snd_conv e by blast
  have m2: "drawGraph_minmax (replicate 38 0 @ [20, 25]) = (20, 25)"
    by code_simp
  have l2: "\<not> f32 (25 - 20) < 1" by code_simp
  have e2: "(f32 (f64 (20 - f64 0.2)), f32 (f64 (25 + f64 0.2)))
      = (5190451 / 262144, 6606029 / 262144 :: real)"
    by code_simp
  have d: "drawGraph_range (replicate 38 0 @ [20, 25]) = (5190451 / 262144, 6606029 / 262144)"
    using C3_range_never_degenerate [of "replicate 38 0 @ [20, 25]"] l2
    unfolding m2 fst_conv snd_conv e2 by blast
  have c: "\<exists>ls. drawGraph (replicate 40 (43 / 2)) = Some ls"
    using C3_range_never_degenerate [of "replicate 40 (43 / 2)"] by blast
  from a b c d show ?thesis by blast
qed

section \<open>Control loop\<close>

lemma updateForecast_frame:
  "tempHistory (updateForecast p s) = tempHistory s"
  "lastUpdate (updateForecast p s) = lastUpdate s"
  "lastGraphUpdate (updateForecast p s) = lastGraphUpdate s"
  "lastClockUpdate (updateForecast p s) = lastClockUpdate s"
  "lastTemp (updateForecast p s) = lastTemp s"
  "lastHum (updateForecast p s) = lastHum s"
  "lastPres (updateForecast p s) = lastPres s"
  "lastGas (updateForecast p s) = lastGas s"
  "ledLevels (updateForecast p s) = ledLevels s"
  by (simp_all add: updateForecast_def Let_def)

lemma addGraphPoint_frame:
  "pressureBaseline (addGraphPoint v s) = pressureBaseline s"
  "weatherStatus (addGraphPoint v s) = weatherStatus s"
  "lastUpdate (addGraphPoint v s) = lastUpdate s"
  "lastGraphUpdate (addGraphPoint v s) = lastGraphUpdate s"
  "lastClockUpdate (addGraphPoint v s) = lastClockUpdate s"
  "lastTemp (addGraphPoint v s) = lastTemp s"
  "lastHum (addGraphPoint v s) = lastHum s"
  "lastPres (addGraphPoint v s) = lastPres s"
  "lastGas (addGraphPoint v s) = lastGas s"
  "ledLevels (addGraphPoint v s) = ledLevels s"
  by (simp_all add: addGraphPoint_def Let_def)

lemma loop_sample_shape:
  "\<exists>s'. loop_sample inp s =
          Some (s', if ms_update_test inp - lastUpdate s > 3000 then [TaskRun SampleTask] else [])
        \<and> lastUpdate s' =
            (if ms_update_test inp - lastUpdate s > 3000 then ms_update_set inp else lastUpdate s)
        \<and> lastClockUpdate s' = lastClockUpdate s
        \<and> lastGraphUpdate s' = lastGraphUpdate s"
proof (cases "reading inp")
  case None
  then show ?thesis by (simp add: loop_sample_def)
next
  case (Some r)
  obtain leds where
    "updateLedBar (mapGasToPercent (f32 (f64 (gas_resistance r / 1000)))) (ms_led inp) = Some leds"
    using updateLedBar_total by blast
  with Some show ?thesis
    by (simp add: loop_sample_def Let_def updateForecast_frame)
qed

lemma loop_sample_failed:
  "reading inp = None \<Longrightarrow>
   loop_sample inp s =
     (if ms_update_test inp - lastUpdate s > 3000
      then Some (s\<lparr>lastUpdate := ms_update_set inp\<rparr>, [TaskRun SampleTask])
      else Some (s, []))"
  by (simp add: loop_sample_def)

lemma loop_graph_shape:
  "\<exists>s' evs. loop_graph inp s = Some (s', evs)
        \<and> count_list evs (TaskRun GraphTask) =
            (if ms_graph_test inp - lastGraphUpdate s > GRAPH_INTERVAL then 1 else 0)
        \<and> count_list evs (TaskRun ClockTask) = 0
        \<and> count_list evs (TaskRun SampleTask) = 0
        \<and> (\<forall>pg. PageSent pg \<notin> set evs)
        \<and> lastGraphUpdate s' =
            (if ms_graph_test inp - lastGraphUpdate s > GRAPH_INTERVAL
             then ms_graph_set inp else lastGraphUpdate s)
        \<and> lastUpdate s' = lastUpdate s
        \<and> lastClockUpdate s' = lastClockUpdate s
        \<and> lastTemp s' = lastTemp s \<and> lastHum s' = lastHum s
        \<and> lastPres s' = lastPres s \<and> lastGas s' = lastGas s
        \<and> pressureBaseline s' = pressureBaseline s
        \<and> weatherStatus s' = weatherStatus s
        \<and> tempHistory s' =
            (if ms_graph_test inp - lastGraphUpdate s > GRAPH_INTERVAL \<and> lastTemp s \<noteq> 0
             then tempHistory (addGraphPoint (lastTemp s) s) else tempHistory s)"
proof -
  obtain ls where
    "drawGraph (tempHistory
       (addGraphPoint (lastTemp s) (s\<lparr>lastGraphUpdate := ms_graph_set inp\<rparr>))) = Some ls"
    using drawGraph_total by blast
  then show ?thesis
    by (simp add: loop_graph_def Let_def addGraphPoint_frame) (simp add: addGraphPoint_def)
qed

lemma handleClient_pages: "PageSent pg \<in> set (handleClient inp s) \<Longrightarrow> pg = handleRoot s"
  by (simp add: handleClient_def split: if_splits)

lemma handleClient_count: "count_list (handleClient inp s) (TaskRun t) = 0"
  by (simp add: handleClient_def)

text \<open>
  C2, as stated, fails at the boundary: the three guards compare with \<open>>\<close>, so a block
  whose elapsed time equals its period does not run. From the initial state (all timers 0)
  a pass at clock value 1000 has elapsed time 1000, the period of the clock block, and runs
  no block at all.
\<close>

theorem C2_boundary_counterexample:
  "(1000 :: 32 word) \<le> ms_clock_test (steady_poll 1000 False None) - lastClockUpdate initial_state
   \<and> map_option snd (loop (steady_poll 1000 False None) initial_state) = Some []"
  by (simp add: steady_poll_def initial_state_def loop_def loop_clock_def loop_sample_def
      loop_graph_def handleClient_def GRAPH_INTERVAL_def)

text \<open>
  C2, amended: in every pass of the loop, each of the three blocks (clock, period 1000;
  sampling, period 3000; graph, period \<open>GRAPH_INTERVAL\<close>) runs exactly once when
  \<open>elapsed = millis() - lastFireTime\<close> (unsigned 32-bit) is greater than its period and
  not at all when \<open>elapsed\<close> is at most the period. A block that runs stores the value
  \<open>millis()\<close> returns at that moment in its timer, not the old timer plus the period;
  so a stalled loop, with an elapsed time of ten periods, runs the block once in that
  pass. The pass always completes.
\<close>

theorem C2_fires_once:
  "\<exists>s' evs. loop inp s = Some (s', evs)
     \<and> count_list evs (TaskRun ClockTask) =
         (if ms_clock_test inp - lastClockUpdate s > 1000 then 1 else 0)
     \<and> lastClockUpdate s' =
         (if ms_clock_test inp - lastClockUpdate s > 1000
          then ms_clock_set inp else lastClockUpdate s)
     \<and> count_list evs (TaskRun SampleTask) =
         (if ms_update_test inp - lastUpdate s > 3000 then 1 else 0)
     \<and> lastUpdate s' =
         (if ms_update_test inp - lastUpdate s > 3000 then ms_update_set inp else lastUpdate s)
     \<and> count_list evs (TaskRun GraphTask) =
         (if ms_graph_test inp - lastGraphUpdate s > GRAPH_INTERVAL then 1 else 0)
     \<and> lastGraphUpdate s' =
         (if ms_graph_test inp - lastGraphUpdate s > GRAPH_INTERVAL
          then ms_graph_set inp else lastGraphUpdate s)"
proof -
  obtain s1 ev1 where c: "loop_clock inp s = (s1, ev1)"
    by (cases "loop_clock inp s")
  then have c1: "count_list ev1 (TaskRun ClockTask) =
         (if ms_clock_test inp - lastClockUpdate s > 1000 then 1 else 0)"
    and c2: "count_list ev1 (TaskRun SampleTask) = 0" "count_list ev1 (TaskRun GraphTask) = 0"
    and c3: "lastClockUpdate s1 =
         (if ms_clock_test inp - lastClockUpdate s > 1000
          then ms_clock_set inp else lastClockUpdate s)"
    and c4: "lastUpdate s1 = lastUpdate s" "lastGraphUpdate s1 = lastGraphUpdate s"
    by (auto simp: loop_clock_def split: if_splits)
  obtain s2 where u: "loop_sample inp s1 =
          Some (s2, if ms_update_test inp - lastUpdate s1 > 3000 then [TaskRun SampleTask] else [])"
    and u1: "lastUpdate s2 =
            (if ms_update_test inp - lastUpdate s1 > 3000 then ms_update_set inp else lastUpdate s1)"
    and u2: "lastClockUpdate s2 = lastClockUpdate s1" "lastGraphUpdate s2 = lastGraphUpdate s1"
    using loop_sample_shape [of inp s1] by blast
  obtain s3 ev3 where g: "loop_graph inp s2 = Some (s3, ev3)"
    and g1: "count_list ev3 (TaskRun GraphTask) =
            (if ms_graph_test inp - lastGraphUpdate s2 > GRAPH_INTERVAL then 1 else 0)"
    and g2: "count_list ev3 (TaskRun ClockTask) = 0" "count_list ev3 (TaskRun SampleTask) = 0"
    and g3: "lastGraphUpdate s3 =
            (if ms_graph_test inp - lastGraphUpdate s2 > GRAPH_INTERVAL
             then ms_graph_set inp else lastGraphUpdate s2)"
    and g4: "lastUpdate s3 = lastUpdate s2" "lastClockUpdate s3 = lastClockUpdate s2"
    using loop_graph_shape [of inp s2] by blast
  have l: "loop inp s = Some (runHeartbeat (ms_heartbeat inp) s3,
      handleClient inp s @ ev1
        @ (if ms_update_test inp - lastUpdate s1 > 3000 then [TaskRun SampleTask] else []) @ ev3)"
    by (simp add: loop_def c u g)
  show ?thesis
    unfolding l
    by (simp add: runHeartbeat_def handleClient_count c1 c2 c3 c4 u1 u2 g1 g2 g3 g4)
qed

theorem C2_fires_once_witness:
  "map_option (\<lambda>r. (count_list (snd r) (TaskRun ClockTask), lastClockUpdate (fst r)))
     (loop (steady_poll 10000 False None) initial_state) = Some (1, 10000)"
proof -
  have i: "lastClockUpdate initial_state = 0" by (simp add: initial_state_def)
  have p: "ms_clock_test (steady_poll 10000 False None) = 10000"
    "ms_clock_set (steady_poll 10000 False None) = 10000"
    by (simp_all add: steady_poll_def)
  from C2_fires_once [of "steady_poll 10000 False None" initial_state]
  show ?thesis by (auto simp: i p)
qed

lemma handleRoot_cong:
  "lastTemp s' = lastTemp s \<Longrightarrow> lastHum s' = lastHum s \<Longrightarrow> lastPres s' = lastPres s \<Longrightarrow>
   lastGas s' = lastGas s \<Longrightarrow> weatherStatus s' = weatherStatus s \<Longrightarrow>
   handleRoot s' = handleRoot s"
  by (simp add: handleRoot_def)

lemma loop_failed:
  assumes "reading inp = None"
  shows "\<exists>s' evs. loop inp s = Some (s', evs)
     \<and> lastTemp s' = lastTemp s \<and> lastHum s' = lastHum s
     \<and> lastPres s' = lastPres s \<and> lastGas s' = lastGas s
     \<and> pressureBaseline s' = pressureBaseline s
     \<and> weatherStatus s' = weatherStatus s
     \<and> tempHistory s' =
         (if ms_graph_test inp - lastGraphUpdate s > GRAPH_INTERVAL \<and> lastTemp s \<noteq> 0
          then tempHistory (addGraphPoint (lastTemp s) s) else tempHistory s)
     \<and> (\<forall>pg. PageSent pg \<in> set evs \<longrightarrow> pg = handleRoot s)"
proof -
  obtain s1 ev1 where c: "loop_clock inp s = (s1, ev1)"
    by (cases "loop_clock inp s")
  then have c1: "s1 = s \<or> s1 = s\<lparr>lastClockUpdate := ms_clock_set inp\<rparr>"
    and c2: "\<forall>pg. PageSent pg \<notin> set ev1"
    by (auto simp: loop_clock_def split: if_splits)
  define s2 where "s2 = (if ms_update_test inp - lastUpdate s1 > 3000
      then s1\<lparr>lastUpdate := ms_update_set inp\<rparr> else s1)"
  define ev2 where "ev2 = (if ms_update_test inp - lastUpdate s1 > 3000
      then [TaskRun SampleTask] else [])"
  have u: "loop_sample inp s1 = Some (s2, ev2)"
    using assms by (simp add: loop_sample_failed s2_def ev2_def)
  have u2: "\<forall>pg. PageSent pg \<notin> set ev2" by (simp add: ev2_def)
  have f2: "lastTemp s2 = lastTemp s" "lastHum s2 = lastHum s" "lastPres s2 = lastPres s"
    "lastGas s2 = lastGas s" "pressureBaseline s2 = pressureBaseline s"
    "weatherStatus s2 = weatherStatus s" "tempHistory s2 = tempHistory s"
    "lastGraphUpdate s2 = lastGraphUpdate s"
    using c1 by (auto simp: s2_def)
  have h2: "tempHistory (addGraphPoint v s2) = tempHistory (addGraphPoint v s)" for v
    by (simp add: addGraphPoint_def f2)
  obtain s3 ev3 where g: "loop_graph inp s2 = Some (s3, ev3)"
    and g1: "\<forall>pg. PageSent pg \<notin> set ev3"
    and g2: "lastTemp s3 = lastTemp s2" "lastHum s3 = lastHum s2" "lastPres s3 = lastPres s2"
      "lastGas s3 = lastGas s2" "pressureBaseline s3 = pressureBaseline s2"
      "weatherStatus s3 = weatherStatus s2"
    and g3: "tempHistory s3 =
            (if ms_graph_test inp - lastGraphUpdate s2 > GRAPH_INTERVAL \<and> lastTemp s2 \<noteq> 0
             then tempHistory (addGraphPoint (lastTemp s2) s2) else tempHistory s2)"
    using loop_graph_shape [of inp s2] by blast
  have l: "loop inp s = Some (runHeartbeat (ms_heartbeat inp) s3,
      handleClient inp s @ ev1 @ ev2 @ ev3)"
    by (simp add: loop_def c u g)
  have pages: "\<forall>pg. PageSent pg \<in> set (handleClient inp s @ ev1 @ ev2 @ ev3) \<longrightarrow>
      pg = handleRoot s"
    using c2 u2 g1 handleClient_pages by auto
  show ?thesis
    unfolding l using pages
    by (simp add: runHeartbeat_def f2 g2 g3 h2)
qed

text \<open>
  C8, as stated, fails for the history buffer: the graph block of \<open>loop()\<close> has its own
  timer and does not look at the outcome of the read. After one good reading, a pass at
  clock value 300001 in which the read fails still pushes the cached temperature 21.5
  into the history.
\<close>

theorem C8_stale_push_counterexample:
  "reading (steady_poll 300001 False None) = None
   \<and> map_option (tempHistory \<circ> fst)
        (run [steady_poll 5000 False (Some normal_sample)] initial_state)
       = Some (replicate 40 0)
   \<and> map_option (tempHistory \<circ> fst)
        (run [steady_poll 5000 False (Some normal_sample), steady_poll 300001 False None]
           initial_state)
       = Some (replicate 39 0 @ [43 / 2])"
  by code_simp

text \<open>
  C8, amended: when \<open>bme.performReading()\<close> fails, the cached temperature, humidity,
  pressure and gas values, the pressure baseline and the weather classification keep their
  values over the whole pass of the loop, and the page built from the state is the same as
  before. The sampling block itself does not touch the history buffer either; in that pass
  the history is written only by the graph block, which, when its own timer is due and the
  cached temperature is not 0, pushes the cached temperature.
\<close>

theorem C8_failed_read_keeps_state:
  "reading inp = None \<Longrightarrow>
   (\<exists>s' evs. loop_sample inp s = Some (s', evs)
      \<and> lastTemp s' = lastTemp s \<and> lastHum s' = lastHum s
      \<and> lastPres s' = lastPres s \<and> lastGas s' = lastGas s
      \<and> pressureBaseline s' = pressureBaseline s
      \<and> weatherStatus s' = weatherStatus s
      \<and> tempHistory s' = tempHistory s
      \<and> handleRoot s' = handleRoot s)
   \<and> (\<exists>s' evs. loop inp s = Some (s', evs)
      \<and> lastTemp s' = lastTemp s \<and> lastHum s' = lastHum s
      \<and> lastPres s' = lastPres s \<and> lastGas s' = lastGas s
      \<and> pressureBaseline s' = pressureBaseline s
      \<and> weatherStatus s' = weatherStatus s
      \<and> tempHistory s' =
          (if ms_graph_test inp - lastGraphUpdate s > GRAPH_INTERVAL \<and> lastTemp s \<noteq> 0
           then tempHistory (addGraphPoint (lastTemp s) s) else tempHistory s)
      \<and> handleRoot s' = handleRoot s)"
proof
  assume a: "reading inp = None"
  show "\<exists>s' evs. loop_sample inp s = Some (s', evs)
      \<and> lastTemp s' = lastTemp s \<and> lastHum s' = lastHum s
      \<and> lastPres s' = lastPres s \<and> lastGas s' = lastGas s
      \<and> pressureBaseline s' = pressureBaseline s
      \<and> weatherStatus s' = weatherStatus s
      \<and> tempHistory s' = tempHistory s
      \<and> handleRoot s' = handleRoot s"
  proof (cases "ms_update_test inp - lastUpdate s > 3000")
    case True
    have "handleRoot (s\<lparr>lastUpdate := ms_update_set inp\<rparr>) = handleRoot s"
      by (rule handleRoot_cong) simp_all
    then show ?thesis using a True by (simp add: loop_sample_failed)
  next
    case False
    then show ?thesis using a by (simp add: loop_sample_failed)
  qed
next
  assume a: "reading inp = None"
  from loop_failed [OF a, of s] obtain s' evs where l: "loop inp s = Some (s', evs)"
    and f: "lastTemp s' = lastTemp s" "lastHum s' = lastHum s"
      "lastPres s' = lastPres s" "lastGas s' = lastGas s"
      "pressureBaseline s' = pressureBaseline s"
      "weatherStatus s' = weatherStatus s"
    and h: "tempHistory s' =
          (if ms_graph_test inp - lastGraphUpdate s > GRAPH_INTERVAL \<and> lastTemp s \<noteq> 0
           then tempHistory (addGraphPoint (lastTemp s) s) else tempHistory s)"
    by (elim exE conjE)
  have hr: "handleRoot s' = handleRoot s" by (rule handleRoot_cong) (rule f)+
  show "\<exists>s' evs. loop inp s = Some (s', evs)
      \<and> lastTemp s' = lastTemp s \<and> lastHum s' = lastHum s
      \<and> lastPres s' = lastPres s \<and> lastGas s' = lastGas s
      \<and> pressureBaseline s' = pressureBaseline s
      \<and> weatherStatus s' = weatherStatus s
      \<and> tempHistory s' =
          (if ms_graph_test inp - lastGraphUpdate s > GRAPH_INTERVAL \<and> lastTemp s \<noteq> 0
           then tempHistory (addGraphPoint (lastTemp s) s) else tempHistory s)
      \<and> handleRoot s' = handleRoot s"
    by (intro exI conjI) (rule l f h hr)+
qed

theorem C8_failed_read_keeps_state_witness:
  "reading (steady_poll 5000 False None) = None
   \<and> (\<exists>s' evs. loop_sample (steady_poll 5000 False None) (initial_state\<lparr>lastTemp := 21\<rparr>)
                   = Some (s', evs)
        \<and> lastTemp s' = 21 \<and> weatherStatus s' = ''Analysis...''
        \<and> tempHistory s' = replicate 40 0)"
proof -
  have h: "reading (steady_poll 5000 False None) = None"
    by (simp add: steady_poll_def)
  have i: "lastTemp (initial_state\<lparr>lastTemp := 21\<rparr>) = 21"
    "weatherStatus (initial_state\<lparr>lastTemp := 21\<rparr>) = ''Analysis...''"
    "tempHistory (initial_state\<lparr>lastTemp := 21\<rparr>) = replicate 40 0"
    by (simp_all add: initial_state_def MAX_HISTORY_def)
  have "\<exists>s' evs. loop_sample (steady_poll 5000 False None) (initial_state\<lparr>lastTemp := 21\<rparr>)
                   = Some (s', evs)
      \<and> lastTemp s' = lastTemp (initial_state\<lparr>lastTemp := 21\<rparr>)
      \<and> lastHum s' = lastHum (initial_state\<lparr>lastTemp := 21\<rparr>)
      \<and> lastPres s' = lastPres (initial_state\<lparr>lastTemp := 21\<rparr>)
      \<and> lastGas s' = lastGas (initial_state\<lparr>lastTemp := 21\<rparr>)
      \<and> pressureBaseline s' = pressureBaseline (initial_state\<lparr>lastTemp := 21\<rparr>)
      \<and> weatherStatus s' = weatherStatus (initial_state\<lparr>lastTemp := 21\<rparr>)
      \<and> tempHistory s' = tempHistory (initial_state\<lparr>lastTemp := 21\<rparr>)
      \<and> handleRoot s' = handleRoot (initial_state\<lparr>lastTemp := 21\<rparr>)"
    using C8_failed_read_keeps_state [OF h, of "initial_state\<lparr>lastTemp := 21\<rparr>"] by (rule conjunct1)
  then obtain s' evs where
    "loop_sample (steady_poll 5000 False None) (initial_state\<lparr>lastTemp := 21\<rparr>) = Some (s', evs)"
    "lastTemp s' = lastTemp (initial_state\<lparr>lastTemp := 21\<rparr>)"
    "weatherStatus s' = weatherStatus (initial_state\<lparr>lastTemp := 21\<rparr>)"
    "tempHistory s' = tempHistory (initial_state\<lparr>lastTemp := 21\<rparr>)"
    by (elim exE conjE)
  then have "loop_sample (steady_poll 5000 False None) (initial_state\<lparr>lastTemp := 21\<rparr>)
                   = Some (s', evs)
        \<and> lastTemp s' = 21 \<and> weatherStatus s' = ''Analysis...''
        \<and> tempHistory s' = replicate 40 0"
    by (simp only: i simp_thms)
  then have "\<exists>s' evs. loop_sample (steady_poll 5000 False None) (initial_state\<lparr>lastTemp := 21\<rparr>)
                   = Some (s', evs)
        \<and> lastTemp s' = 21 \<and> weatherStatus s' = ''Analysis...''
        \<and> tempHistory s' = replicate 40 0"
    by (intro exI)
  with h show ?thesis by (rule conjI)
qed

lemma run_failed:
  "\<forall>inp \<in> set inps. reading inp = None \<Longrightarrow>
   \<exists>s' evs. run inps s = Some (s', evs)
     \<and> lastTemp s' = lastTemp s \<and> lastHum s' = lastHum s
     \<and> lastPres s' = lastPres s \<and> lastGas s' = lastGas s
     \<and> pressureBaseline s' = pressureBaseline s
     \<and> weatherStatus s' = weatherStatus s
     \<and> (\<forall>pg. PageSent pg \<in> set evs \<longrightarrow> pg = handleRoot s)"
proof (induction inps arbitrary: s)
  case Nil
  then show ?case by simp
next
  case (Cons inp inps)
  then have a: "reading inp = None" and b: "\<forall>inp \<in> set inps. reading inp = None"
    by simp_all
  from loop_failed [OF a, of s] obtain s1 ev1 where l: "loop inp s = Some (s1, ev1)"
    and f: "lastTemp s1 = lastTemp s" "lastHum s1 = lastHum s"
      "lastPres s1 = lastPres s" "lastGas s1 = lastGas s"
      "pressureBaseline s1 = pressureBaseline s"
      "weatherStatus s1 = weatherStatus s"
    and p: "\<forall>pg. PageSent pg \<in> set ev1 \<longrightarrow> pg = handleRoot s"
    by (elim exE conjE)
  have hr: "handleRoot s1 = handleRoot s" by (rule handleRoot_cong) (rule f)+
  from Cons.IH [OF b, of s1] obtain s2 ev2 where r: "run inps s1 = Some (s2, ev2)"
    and f2: "lastTemp s2 = lastTemp s1" "lastHum s2 = lastHum s1"
      "lastPres s2 = lastPres s1" "lastGas s2 = lastGas s1"
      "pressureBaseline s2 = pressureBaseline s1"
      "weatherStatus s2 = weatherStatus s1"
    and p2: "\<forall>pg. PageSent pg \<in> set ev2 \<longrightarrow> pg = handleRoot s1"
    by (elim exE conjE)
  have rr: "run (inp # inps) s = Some (s2, ev1 @ ev2)" by (simp add: l r)
  have pp: "\<forall>pg. PageSent pg \<in> set (ev1 @ ev2) \<longrightarrow> pg = handleRoot s"
    using p p2 by (simp only: hr set_append Un_iff) blast
  have ff: "lastTemp s2 = lastTemp s" "lastHum s2 = lastHum s"
      "lastPres s2 = lastPres s" "lastGas s2 = lastGas s"
      "pressureBaseline s2 = pressureBaseline s"
      "weatherStatus s2 = weatherStatus s"
    by (simp_all only: f f2)
  show ?case
    by (intro exI conjI) (rule rr ff pp)+
qed

lemma numbers_shown:
  "filter is_number (handleRoot s) =
     [FloatStr (lastTemp s) 1, FloatStr (lastHum s) 0, FloatStr (lastPres s) 0,
      IntStr (mapGasToPercent (lastGas s))]"
  by (simp add: handleRoot_def Let_def)

lemma low_gas_percent: "g \<le> 5 \<Longrightarrow> mapGasToPercent g = 100"
proof -
  assume "g \<le> 5"
  then have "clamp_spec g 5 150 = 5" by (simp add: clamp_spec_def)
  then have "mapGasToPercent g = c_trunc (f64 (f64 (f32 145 * 100) / f32 145))"
    by (simp add: mapGasToPercent_clamp)
  then show ?thesis by (simp add: quotient_145 c_trunc_def)
qed

lemma zero_gas_percent: "mapGasToPercent 0 = 100"
  by (simp add: low_gas_percent)

text \<open>
  C10, as stated, fails in its last clause: the page prints the weather label, which is
  \<open>Analysis...\<close> in the initial state and is another text once a sample has been
  classified, so a state without data is presented differently.
\<close>

theorem C10_label_counterexample:
  "(\<in>) (Lit ''Analysis...'') (set (handleRoot initial_state))
   \<and> map_option ((\<in>) (Lit ''Analysis...'') \<circ> set \<circ> handleRoot \<circ> fst)
        (run [steady_poll 5000 False (Some normal_sample)] initial_state) = Some False"
  by code_simp

lemma label_gone: "Lit ''Analysis...'' \<notin> set (handleRoot (updateForecast p s))"
  by (simp add: handleRoot_def updateForecast_def Let_def)

lemma label_shown: "Lit (weatherStatus s) \<in> set (handleRoot s)"
  by (simp add: handleRoot_def Let_def)

lemma loop_page:
  "request inp \<Longrightarrow> \<exists>s' evs. loop inp s = Some (s', evs) \<and> PageSent (handleRoot s) \<in> set evs"
proof -
  assume r: "request inp"
  obtain s1 ev1 where c: "loop_clock inp s = (s1, ev1)" by (cases "loop_clock inp s")
  obtain s2 where u: "loop_sample inp s1 =
      Some (s2, if ms_update_test inp - lastUpdate s1 > 3000 then [TaskRun SampleTask] else [])"
    using loop_sample_shape [of inp s1] by (elim exE conjE)
  obtain s3 ev3 where g: "loop_graph inp s2 = Some (s3, ev3)"
    using loop_graph_shape [of inp s2] by (elim exE conjE)
  have "loop inp s = Some (runHeartbeat (ms_heartbeat inp) s3,
      handleClient inp s @ ev1
        @ (if ms_update_test inp - lastUpdate s1 > 3000 then [TaskRun SampleTask] else []) @ ev3)"
    by (simp add: loop_def c u g)
  moreover have "PageSent (handleRoot s) \<in> set (handleClient inp s)"
    using r by (simp add: handleClient_def)
  ultimately show ?thesis by simp
qed

text \<open>
  C10, amended: in every state reached from the initial state by passes of the loop in
  which no sensor read succeeds, the four cached values are 0, the gas-to-percent mapping
  of the cached gas value is 100, and the numbers on the page, of that state and of every
  page sent on the way, are temperature 0 with one decimal, humidity 0, pressure 0 and
  air quality 100; a request in such a state is answered with that page. The same numbers
  are shown for any state whose caches hold readings of 0, 0, 0 and a gas resistance of at
  most 5, so the four metrics have no presentation of their own for missing data. Only the
  weather label tells: it is \<open>Analysis...\<close> in every such state and never after a
  forecast update.
\<close>

theorem C10_before_first_read:
  "\<forall>inp \<in> set inps. reading inp = None \<Longrightarrow>
   \<exists>s evs. run inps initial_state = Some (s, evs)
     \<and> lastTemp s = 0 \<and> lastHum s = 0 \<and> lastPres s = 0 \<and> lastGas s = 0
     \<and> mapGasToPercent (lastGas s) = 100
     \<and> filter is_number (handleRoot s) = [FloatStr 0 1, FloatStr 0 0, FloatStr 0 0, IntStr 100]
     \<and> (\<forall>pg. PageSent pg \<in> set evs \<longrightarrow>
           filter is_number pg = [FloatStr 0 1, FloatStr 0 0, FloatStr 0 0, IntStr 100])
     \<and> (\<forall>s2. lastTemp s2 = 0 \<and> lastHum s2 = 0 \<and> lastPres s2 = 0 \<and> lastGas s2 \<le> 5 \<longrightarrow>
           filter is_number (handleRoot s2) = filter is_number (handleRoot s))
     \<and> (\<forall>inp. request inp \<longrightarrow>
           (\<exists>s' evs'. loop inp s = Some (s', evs') \<and> PageSent (handleRoot s) \<in> set evs'))
     \<and> weatherStatus s = ''Analysis...''
     \<and> Lit ''Analysis...'' \<in> set (handleRoot s)
     \<and> (\<forall>p s2. Lit ''Analysis...'' \<notin> set (handleRoot (updateForecast p s2)))"
proof -
  assume a: "\<forall>inp \<in> set inps. reading inp = None"
  have i0: "lastTemp initial_state = 0" "lastHum initial_state = 0"
    "lastPres initial_state = 0" "lastGas initial_state = 0"
    "weatherStatus initial_state = ''Analysis...''"
    by (simp_all add: initial_state_def)
  from run_failed [OF a, of initial_state] obtain s evs
    where r: "run inps initial_state = Some (s, evs)"
    and f': "lastTemp s = lastTemp initial_state" "lastHum s = lastHum initial_state"
      "lastPres s = lastPres initial_state" "lastGas s = lastGas initial_state"
    and w': "weatherStatus s = weatherStatus initial_state"
    and p: "\<forall>pg. PageSent pg \<in> set evs \<longrightarrow> pg = handleRoot initial_state"
    by (elim exE conjE)
  have f: "lastTemp s = 0" "lastHum s = 0" "lastPres s = 0" "lastGas s = 0"
    using f' by (simp_all only: i0)
  have w: "weatherStatus s = ''Analysis...''" using w' by (simp only: i0)
  have n0: "filter is_number (handleRoot initial_state) =
      [FloatStr 0 1, FloatStr 0 0, FloatStr 0 0, IntStr 100]"
    by (simp only: numbers_shown i0 zero_gas_percent)
  have n: "filter is_number (handleRoot s) =
      [FloatStr 0 1, FloatStr 0 0, FloatStr 0 0, IntStr 100]"
    by (simp only: numbers_shown f zero_gas_percent)
  have q: "\<forall>s2. lastTemp s2 = 0 \<and> lastHum s2 = 0 \<and> lastPres s2 = 0 \<and> lastGas s2 \<le> 5 \<longrightarrow>
           filter is_number (handleRoot s2) = filter is_number (handleRoot s)"
    by (simp add: numbers_shown f low_gas_percent zero_gas_percent del: filter.simps)
  have pn: "\<forall>pg. PageSent pg \<in> set evs \<longrightarrow>
           filter is_number pg = [FloatStr 0 1, FloatStr 0 0, FloatStr 0 0, IntStr 100]"
    using p by (simp only: n0 [symmetric]) blast
  have g: "mapGasToPercent (lastGas s) = 100"
    by (simp add: f zero_gas_percent)
  have rq: "\<forall>inp. request inp \<longrightarrow>
           (\<exists>s' evs'. loop inp s = Some (s', evs') \<and> PageSent (handleRoot s) \<in> set evs')"
    using loop_page by blast
  have ls: "Lit ''Analysis...'' \<in> set (handleRoot s)"
    using label_shown [of s] by (simp only: w)
  have lg: "\<forall>p s2. Lit ''Analysis...'' \<notin> set (handleRoot (updateForecast p s2))"
    using label_gone by blast
  show ?thesis
    by (intro exI conjI) (rule r f g n pn q rq w ls lg)+
qed

theorem C10_before_first_read_witness:
  "reading (steady_poll 5000 True None) = None
   \<and> reading (steady_poll 9000 True None) = None
   \<and> (\<exists>s evs. run [steady_poll 5000 True None, steady_poll 9000 True None] initial_state
                  = Some (s, evs)
        \<and> lastTemp s = 0 \<and> mapGasToPercent (lastGas s) = 100
        \<and> filter is_number (handleRoot s)
            = [FloatStr 0 1, FloatStr 0 0, FloatStr 0 0, IntStr 100])"
proof -
  have r: "reading (steady_poll 5000 True None) = None"
    "reading (steady_poll 9000 True None) = None"
    by (simp_all add: steady_poll_def)
  then have h: "\<forall>inp \<in> set [steady_poll 5000 True None, steady_poll 9000 True None].
      reading inp = None"
    by simp
  have "\<exists>s evs. run [steady_poll 5000 True None, steady_poll 9000 True None] initial_state
                  = Some (s, evs)
        \<and> lastTemp s = 0 \<and> mapGasToPercent (lastGas s) = 100
        \<and> filter is_number (handleRoot s)
            = [FloatStr 0 1, FloatStr 0 0, FloatStr 0 0, IntStr 100]"
    using C10_before_first_read [OF h] by (elim exE conjE) (intro exI conjI)
  with r show ?thesis by (intro conjI)
qed

section \<open>Forecast\<close>



















end
